theory Spec2Isabelle
  imports Main "HOL-Library.Word" "HOL-Library.Monad_Syntax"
begin

unbundle bit_operations_syntax

section \<open>Data model of the virtual machine (vm.c and the headers it includes)\<close>

text \<open>
  Pointers to heap objects are addresses (indices into the object heap). A \<open>Value *\<close>
  points either into \<open>vm.stack\<close> or at the \<open>closed\<close> field of an upvalue object.
  A computation that dereferences an invalid pointer, indexes an array out of range or
  does not return has no result (\<open>None\<close>).
\<close>

text \<open>Modelled from the spec: a number is an IEEE-754 double (value.h is not part of the
  sources), here its 64-bit pattern: the sign bit, 11 bits of biased exponent and 52 bits
  of fraction.\<close>
type_synonym double = "64 word"

text \<open>Modelled from the spec: the tagged union Value of value.h.\<close>
datatype Value = NIL_VAL | BOOL_VAL bool | NUMBER_VAL double | OBJ_VAL nat

text \<open>Modelled from the spec: the hash table of table.h, a map from interned-string
  keys (addresses of string objects) to values.\<close>
type_synonym Table = "nat \<rightharpoonup> Value"

text \<open>Modelled from the spec: the three parallel arrays of a chunk (chunk.h).\<close>
record Chunk =
  code :: "8 word list"
  lines :: "int list"
  constants :: "Value list"

text \<open>A \<open>Value *\<close>: a pointer to the slot \<open>vm.stack[i]\<close>, or to the \<open>closed\<close> field of the
  upvalue object at an address.\<close>
datatype ValuePtr = StackPtr nat | ClosedPtr nat

text \<open>Modelled from the spec: the heap object variants of object.h, which is not part
  of the sources. A string object is its bytes; a native is the function it points to.\<close>
record ObjFunction =
  arity :: int
  fn_upvalueCount :: int
  chunk :: Chunk
  fn_name :: "nat option"

text \<open>Modelled from the spec: a closure (object.h): its function and its array of
  upvalue pointers, \<open>NULL\<close> until they are filled in.\<close>
record ObjClosure =
  func :: nat
  upvalues :: "nat option list"

text \<open>Modelled from the spec: an upvalue (object.h): \<open>location\<close>, the owned \<open>closed\<close>
  value and the \<open>next\<close> link of the open-upvalue list.\<close>
record ObjUpvalue =
  location :: ValuePtr
  closed :: Value
  next_upvalue :: "nat option"

text \<open>Modelled from the spec: a class (object.h): its name and its method table.\<close>
record ObjClass =
  class_name :: nat
  methods :: Table

text \<open>Modelled from the spec: an instance (object.h): its class and its field table.\<close>
record ObjInstance =
  klass :: nat
  inst_fields :: Table

text \<open>Modelled from the spec: a bound method (object.h): receiver and method closure.\<close>
record ObjBoundMethod =
  receiver :: Value
  bound_method :: nat

text \<open>Modelled from the spec: a heap object with its type tag (object.h).\<close>
datatype Obj =
    StringObj string
  | FunctionObj ObjFunction
  | NativeObj "int \<Rightarrow> Value list \<Rightarrow> Value"
  | ClosureObj ObjClosure
  | UpvalueObj ObjUpvalue
  | ClassObj ObjClass
  | InstanceObj ObjInstance
  | BoundMethodObj ObjBoundMethod

text \<open>Modelled from the spec: a call frame (vm.h): \<open>ip\<close> is an index into the code of the
  closure's function, \<open>slots\<close> an index into \<open>vm.stack\<close>.\<close>
record CallFrame =
  closure :: nat
  ip :: nat
  slots :: nat

text \<open>Modelled from the spec: the global VM of vm.h. \<open>stack\<close> and \<open>frames\<close> are the
  fixed arrays (their lengths are the capacities), \<open>stackTop\<close> is an index into
  \<open>stack\<close>, \<open>strings\<close> is the intern table, \<open>err\<close> is what was written to stderr.\<close>
record VM =
  frames :: "CallFrame list"
  frameCount :: nat
  stack :: "Value list"
  stackTop :: nat
  globals :: Table
  strings :: "string \<rightharpoonup> nat"
  initString :: nat
  openUpvalues :: "nat option"
  heap :: "Obj list"
  err :: string

text \<open>Modelled from the spec: the result of \<open>interpret\<close> (vm.h).\<close>
datatype InterpretResult = INTERPRET_OK | INTERPRET_COMPILE_ERROR | INTERPRET_RUNTIME_ERROR

text \<open>What an instruction of \<open>run\<close> ends with: \<open>DISPATCH()\<close> or \<open>return\<close>.\<close>
datatype Control = DISPATCH | RETURN InterpretResult

text \<open>Modelled from the spec: the capacity of the call-frame stack (vm.h), default 64.\<close>
definition FRAMES_MAX :: nat where
  "FRAMES_MAX = 64"

section \<open>Heap access\<close>

definition obj_at :: "VM \<Rightarrow> nat \<Rightarrow> Obj option" where
  "obj_at vm a = (if a < length (heap vm) then Some (heap vm ! a) else None)"

definition string_at :: "VM \<Rightarrow> nat \<Rightarrow> string option" where
  "string_at vm a = (case obj_at vm a of Some (StringObj s) \<Rightarrow> Some s | _ \<Rightarrow> None)"

definition function_at :: "VM \<Rightarrow> nat \<Rightarrow> ObjFunction option" where
  "function_at vm a = (case obj_at vm a of Some (FunctionObj f) \<Rightarrow> Some f | _ \<Rightarrow> None)"

definition closure_at :: "VM \<Rightarrow> nat \<Rightarrow> ObjClosure option" where
  "closure_at vm a = (case obj_at vm a of Some (ClosureObj c) \<Rightarrow> Some c | _ \<Rightarrow> None)"

definition upvalue_at :: "VM \<Rightarrow> nat \<Rightarrow> ObjUpvalue option" where
  "upvalue_at vm a = (case obj_at vm a of Some (UpvalueObj u) \<Rightarrow> Some u | _ \<Rightarrow> None)"

definition class_at :: "VM \<Rightarrow> nat \<Rightarrow> ObjClass option" where
  "class_at vm a = (case obj_at vm a of Some (ClassObj c) \<Rightarrow> Some c | _ \<Rightarrow> None)"

text \<open>Writing a field of an existing object.\<close>
definition set_obj :: "nat \<Rightarrow> Obj \<Rightarrow> VM \<Rightarrow> VM option" where
  "set_obj a ob vm =
     (if a < length (heap vm) then Some (vm\<lparr>heap := (heap vm)[a := ob]\<rparr>) else None)"

text \<open>Modelled from the spec: allocation of a heap object (object.c, memory.c); the
  collector is a stub, so objects are never freed and a new object gets a new address.\<close>
definition allocateObject :: "Obj \<Rightarrow> VM \<Rightarrow> nat \<times> VM" where
  "allocateObject ob vm = (length (heap vm), vm\<lparr>heap := heap vm @ [ob]\<rparr>)"

text \<open>The macros of value.h and object.h on values: \<open>AS_OBJ\<close> (and the casts built on
  it) and \<open>AS_NUMBER\<close> read a member of the union, which is defined only for a value
  of that tag; \<open>IS_STRING\<close> and \<open>IS_CLASS\<close> read the type tag of the object pointed to.\<close>
definition AS_OBJ :: "Value \<Rightarrow> nat option" where
  "AS_OBJ v = (case v of OBJ_VAL a \<Rightarrow> Some a | _ \<Rightarrow> None)"

definition AS_NUMBER :: "Value \<Rightarrow> double option" where
  "AS_NUMBER v = (case v of NUMBER_VAL d \<Rightarrow> Some d | _ \<Rightarrow> None)"

definition IS_NUMBER :: "Value \<Rightarrow> bool" where
  "IS_NUMBER v = (case v of NUMBER_VAL d \<Rightarrow> True | _ \<Rightarrow> False)"

definition IS_STRING :: "VM \<Rightarrow> Value \<Rightarrow> bool option" where
  "IS_STRING vm v =
     (case v of
        OBJ_VAL a \<Rightarrow>
          (case obj_at vm a of
             Some ob \<Rightarrow> Some (case ob of StringObj s \<Rightarrow> True | _ \<Rightarrow> False)
           | None \<Rightarrow> None)
      | _ \<Rightarrow> Some False)"

definition IS_CLASS :: "VM \<Rightarrow> Value \<Rightarrow> bool option" where
  "IS_CLASS vm v =
     (case v of
        OBJ_VAL a \<Rightarrow>
          (case obj_at vm a of
             Some ob \<Rightarrow> Some (case ob of ClassObj c \<Rightarrow> True | _ \<Rightarrow> False)
           | None \<Rightarrow> None)
      | _ \<Rightarrow> Some False)"

section \<open>The hash table primitive\<close>

text \<open>Modelled from the spec: \<open>get\<close> of the hash table (table.c is not part of the
  sources): the value stored for the key, if there is one.\<close>
definition tableGet :: "Table \<Rightarrow> nat \<Rightarrow> Value option" where
  "tableGet t k = t k"

text \<open>Modelled from the spec: \<open>set\<close> of the hash table stores the value for the key
  and returns whether the key was new.\<close>
definition tableSet :: "Table \<Rightarrow> nat \<Rightarrow> Value \<Rightarrow> Table \<times> bool" where
  "tableSet t k v = (t(k \<mapsto> v), t k = None)"

text \<open>Modelled from the spec: \<open>delete\<close> of the hash table removes the entry of the key.\<close>
definition tableDelete :: "Table \<Rightarrow> nat \<Rightarrow> Table" where
  "tableDelete t k = t(k := None)"

text \<open>Modelled from the spec: \<open>addAll\<close> of the hash table sets every entry of \<open>from\<close> in
  \<open>to\<close>.\<close>
definition tableAddAll :: "Table \<Rightarrow> Table \<Rightarrow> Table" where
  "tableAddAll from to = to ++ from"

section \<open>Value stack\<close>

definition resetStack :: "VM \<Rightarrow> VM" where
  "resetStack vm = vm\<lparr>stackTop := 0, frameCount := 0, openUpvalues := None\<rparr>"

definition push :: "Value \<Rightarrow> VM \<Rightarrow> VM option" where
  "push v vm =
     (if stackTop vm < length (stack vm)
      then Some (vm\<lparr>stack := (stack vm)[stackTop vm := v], stackTop := stackTop vm + 1\<rparr>)
      else None)"

definition pop :: "VM \<Rightarrow> (Value \<times> VM) option" where
  "pop vm =
     (if 0 < stackTop vm \<and> stackTop vm \<le> length (stack vm)
      then Some (stack vm ! (stackTop vm - 1), vm\<lparr>stackTop := stackTop vm - 1\<rparr>)
      else None)"

text \<open>The index of \<open>vm.stackTop[off]\<close>, when it is inside the stack array.\<close>
definition stack_index :: "VM \<Rightarrow> int \<Rightarrow> nat option" where
  "stack_index vm off =
     (let i = int (stackTop vm) + off
      in if 0 \<le> i \<and> i < int (length (stack vm)) then Some (nat i) else None)"

definition peek :: "int \<Rightarrow> VM \<Rightarrow> Value option" where
  "peek distance vm = map_option (\<lambda>i. stack vm ! i) (stack_index vm (- 1 - distance))"

section \<open>Runtime errors\<close>

text \<open>The decimal digits that \<open>%d\<close> prints.\<close>
fun show_nat :: "nat \<Rightarrow> string" where
  "show_nat n =
     (if n < 10 then [''0123456789'' ! n]
      else show_nat (n div 10) @ [''0123456789'' ! (n mod 10)])"

declare show_nat.simps [simp del]

definition show_int :: "int \<Rightarrow> string" where
  "show_int i = (if i < 0 then CHR ''-'' # show_nat (nat (- i)) else show_nat (nat i))"

definition newline :: string where
  "newline = [CHR 0x0A]"

text \<open>One line of the stack trace: the body of the loop of \<open>runtimeError\<close> for frame \<open>i\<close>.\<close>
definition trace_line :: "VM \<Rightarrow> nat \<Rightarrow> string option" where
  "trace_line vm i =
     (if i < length (frames vm) then
        do {
          let frame = frames vm ! i;
          c \<leftarrow> closure_at vm (closure frame);
          f \<leftarrow> function_at vm (func c);
          if 0 < ip frame \<and> ip frame - 1 < length (lines (chunk f)) then
            do {
              let head = ''[line '' @ show_int (lines (chunk f) ! (ip frame - 1)) @ ''] in '';
              case fn_name f of
                None \<Rightarrow> Some (head @ ''script'' @ newline)
              | Some n \<Rightarrow>
                  do { s \<leftarrow> string_at vm n; Some (head @ s @ ''()'' @ newline) }
            }
          else None
        }
      else None)"

text \<open>The loop \<open>for (int i = vm.frameCount - 1; i >= 0; i--)\<close>, started with
  \<open>n = vm.frameCount\<close>.\<close>
fun stack_trace :: "VM \<Rightarrow> nat \<Rightarrow> string option" where
  "stack_trace vm 0 = Some []"
| "stack_trace vm (Suc i) =
     do { l \<leftarrow> trace_line vm i; rest \<leftarrow> stack_trace vm i; Some (l @ rest) }"

text \<open>\<open>runtimeError\<close>, applied to the message as \<open>vfprintf\<close> formats it.\<close>
definition runtimeError :: "string \<Rightarrow> VM \<Rightarrow> VM option" where
  "runtimeError msg vm =
     do {
       trace \<leftarrow> stack_trace vm (frameCount vm);
       Some (resetStack (vm\<lparr>err := err vm @ msg @ newline @ trace\<rparr>))
     }"

section \<open>Calls\<close>

definition call :: "nat \<Rightarrow> int \<Rightarrow> VM \<Rightarrow> (bool \<times> VM) option" where
  "call cl argCount vm =
     do {
       c \<leftarrow> closure_at vm cl;
       f \<leftarrow> function_at vm (func c);
       if argCount \<noteq> arity f then
         do {
           vm' \<leftarrow> runtimeError (''Expected '' @ show_int (arity f) @ '' arguments but got ''
                                  @ show_int argCount @ ''.'') vm;
           Some (False, vm')
         }
       else if frameCount vm = FRAMES_MAX then
         do { vm' \<leftarrow> runtimeError ''Stack overflow.'' vm; Some (False, vm') }
       else
         (let base = int (stackTop vm) - argCount - 1
          in if frameCount vm < length (frames vm) \<and> 0 \<le> base
                \<and> base \<le> int (length (stack vm))
             then Some (True,
                    vm\<lparr>frames := (frames vm)[frameCount vm :=
                                   \<lparr>closure = cl, ip = 0, slots = nat base\<rparr>],
                       frameCount := frameCount vm + 1\<rparr>)
             else None)
     }"

section \<open>Reading the bytecode of the running frame\<close>

text \<open>The local \<open>frame\<close> of \<open>run\<close>: \<open>&vm.frames[vm.frameCount - 1]\<close>.\<close>
definition current_frame :: "VM \<Rightarrow> CallFrame option" where
  "current_frame vm =
     (if 0 < frameCount vm \<and> frameCount vm \<le> length (frames vm)
      then Some (frames vm ! (frameCount vm - 1)) else None)"

text \<open>\<open>frame->closure->function->chunk\<close>.\<close>
definition frame_chunk :: "VM \<Rightarrow> CallFrame \<Rightarrow> Chunk option" where
  "frame_chunk vm frame =
     do { c \<leftarrow> closure_at vm (closure frame); f \<leftarrow> function_at vm (func c); Some (chunk f) }"

text \<open>Assignment to \<open>frame->ip\<close>.\<close>
definition set_ip :: "nat \<Rightarrow> VM \<Rightarrow> VM" where
  "set_ip i vm =
     vm\<lparr>frames := (frames vm)[frameCount vm - 1 := (frames vm ! (frameCount vm - 1))\<lparr>ip := i\<rparr>]\<rparr>"

definition READ_BYTE :: "VM \<Rightarrow> (8 word \<times> VM) option" where
  "READ_BYTE vm =
     do {
       frame \<leftarrow> current_frame vm;
       ch \<leftarrow> frame_chunk vm frame;
       if ip frame < length (code ch)
       then Some (code ch ! ip frame, set_ip (ip frame + 1) vm)
       else None
     }"

text \<open>\<open>(frame->ip += 2, (uint16_t)((frame->ip[-2] << 8) | frame->ip[-1]))\<close>: the bytes
  are promoted to \<open>int\<close> before the shift.\<close>
definition READ_SHORT :: "VM \<Rightarrow> (16 word \<times> VM) option" where
  "READ_SHORT vm =
     do {
       frame \<leftarrow> current_frame vm;
       ch \<leftarrow> frame_chunk vm frame;
       if ip frame + 2 \<le> length (code ch)
       then Some (ucast (push_bit 8 (ucast (code ch ! ip frame) :: 32 word)
                         OR (ucast (code ch ! (ip frame + 1)) :: 32 word)),
                  set_ip (ip frame + 2) vm)
       else None
     }"

definition READ_CONSTANT :: "VM \<Rightarrow> (Value \<times> VM) option" where
  "READ_CONSTANT vm =
     do {
       frame \<leftarrow> current_frame vm;
       ch \<leftarrow> frame_chunk vm frame;
       (b, vm') \<leftarrow> READ_BYTE vm;
       if unat b < length (constants ch) then Some (constants ch ! unat b, vm') else None
     }"

text \<open>\<open>AS_STRING(READ_CONSTANT())\<close>: the address of a string object.\<close>
definition READ_STRING :: "VM \<Rightarrow> (nat \<times> VM) option" where
  "READ_STRING vm =
     do {
       (v, vm') \<leftarrow> READ_CONSTANT vm;
       a \<leftarrow> AS_OBJ v;
       s \<leftarrow> string_at vm' a;
       Some (a, vm')
     }"

definition isFalsey :: "Value \<Rightarrow> bool" where
  "isFalsey v = (case v of NIL_VAL \<Rightarrow> True | BOOL_VAL b \<Rightarrow> \<not> b | _ \<Rightarrow> False)"

section \<open>Jumps\<close>

text \<open>\<open>frame->ip += offset\<close> and \<open>frame->ip -= offset\<close>: the pointer stays inside the code
  array or one past its end.\<close>
definition ip_add :: "16 word \<Rightarrow> VM \<Rightarrow> VM option" where
  "ip_add offset vm =
     do {
       frame \<leftarrow> current_frame vm;
       ch \<leftarrow> frame_chunk vm frame;
       if ip frame + unat offset \<le> length (code ch)
       then Some (set_ip (ip frame + unat offset) vm) else None
     }"

definition ip_sub :: "16 word \<Rightarrow> VM \<Rightarrow> VM option" where
  "ip_sub offset vm =
     do {
       frame \<leftarrow> current_frame vm;
       if unat offset \<le> ip frame
       then Some (set_ip (ip frame - unat offset) vm) else None
     }"

definition op_jump :: "VM \<Rightarrow> (Control \<times> VM) option" where
  "op_jump vm =
     do { (offset, vm1) \<leftarrow> READ_SHORT vm; vm2 \<leftarrow> ip_add offset vm1; Some (DISPATCH, vm2) }"

definition op_jump_if_false :: "VM \<Rightarrow> (Control \<times> VM) option" where
  "op_jump_if_false vm =
     do {
       (offset, vm1) \<leftarrow> READ_SHORT vm;
       v \<leftarrow> peek 0 vm1;
       if isFalsey v then do { vm2 \<leftarrow> ip_add offset vm1; Some (DISPATCH, vm2) }
       else Some (DISPATCH, vm1)
     }"

definition op_loop :: "VM \<Rightarrow> (Control \<times> VM) option" where
  "op_loop vm =
     do { (offset, vm1) \<leftarrow> READ_SHORT vm; vm2 \<leftarrow> ip_sub offset vm1; Some (DISPATCH, vm2) }"

text \<open>The reading of "little-endian byte pair" in the specification: the first operand
  byte is the low byte.\<close>
definition little_endian_short :: "8 word \<Rightarrow> 8 word \<Rightarrow> 16 word" where
  "little_endian_short b0 b1 = push_bit 8 (ucast b1) OR ucast b0"

section \<open>Addition of doubles\<close>

text \<open>What a bit pattern denotes: the finite number \<open>(-1)\<^sup>s * m * 2\<^sup>e\<close>, an infinity with its
  sign, or a NaN.\<close>
datatype ieee = Finite bool nat int | Infinity bool | NaN

text \<open>The number of binary digits of a natural number.\<close>
fun bit_length :: "nat \<Rightarrow> nat" where
  "bit_length n = (if n = 0 then 0 else Suc (bit_length (n div 2)))"

declare bit_length.simps [simp del]

text \<open>Decoding of the binary64 format: the exponent field 2047 is an infinity (fraction 0)
  or a NaN, the exponent field 0 a zero or a subnormal number with exponent \<open>-1074\<close>, any
  other field \<open>e\<close> a normal number with the implicit leading bit and exponent \<open>e - 1075\<close>.\<close>
definition double_decode :: "double \<Rightarrow> ieee" where
  "double_decode w =
     (let s = (2 ^ 63 \<le> unat w);
          e = unat w div 2 ^ 52 mod 2048;
          f = unat w mod 2 ^ 52
      in if e = 2047 then (if f = 0 then Infinity s else NaN)
         else if e = 0 then Finite s f (- 1074)
         else Finite s (2 ^ 52 + f) (int e - 1075))"

definition sign_bit :: "bool \<Rightarrow> nat" where
  "sign_bit s = (if s then 2 ^ 63 else 0)"

text \<open>Encoding of a number in the form that \<open>round_nearest_even\<close> returns: \<open>m < 2\<^sup>5\<^sup>3\<close>, and
  \<open>m < 2\<^sup>5\<^sup>2\<close> only with the exponent \<open>-1074\<close>. The NaN is the one that an invalid operation
  produces on x86-64.\<close>
definition double_encode :: "ieee \<Rightarrow> double" where
  "double_encode x =
     (case x of
        NaN \<Rightarrow> 0xFFF8000000000000
      | Infinity s \<Rightarrow> of_nat (sign_bit s + 2047 * 2 ^ 52)
      | Finite s m e \<Rightarrow>
          if m < 2 ^ 52 then of_nat (sign_bit s + m)
          else of_nat (sign_bit s + nat (e + 1075) * 2 ^ 52 + (m - 2 ^ 52)))"

text \<open>Rounding of the exact value \<open>m * 2\<^sup>e\<close> to the nearest double, a tie to the one with
  an even significand (the rounding mode a C program starts with): the result has the
  exponent \<open>e1\<close> that leaves at most 53 digits, \<open>up\<close> says that the digits cut off are more
  than half a unit, or exactly half with an odd quotient; a value beyond the largest
  finite double becomes an infinity.\<close>
definition round_nearest_even :: "bool \<Rightarrow> nat \<Rightarrow> int \<Rightarrow> ieee" where
  "round_nearest_even s m e =
     (let e1 = max (e + int (bit_length m) - 53) (- 1074);
          d = nat (e1 - e);
          q = (if e1 \<le> e then m * 2 ^ nat (e - e1) else m div 2 ^ d);
          r = (if e1 \<le> e then 0 else m mod 2 ^ d);
          up = (e < e1 \<and> (2 ^ (d - 1) < r \<or> (r = 2 ^ (d - 1) \<and> odd q)));
          q1 = (if up then q + 1 else q);
          m2 = (if q1 = 2 ^ 53 then 2 ^ 52 else q1);
          e2 = (if q1 = 2 ^ 53 then e1 + 1 else e1)
      in if 971 < e2 then Infinity s else Finite s m2 e2)"

text \<open>IEEE-754 addition: the exact sum of two finite numbers, rounded; a sum that is
  exactly zero is \<open>-0\<close> only when both operands are \<open>-0\<close>; infinities of opposite sign have
  no sum.\<close>
definition ieee_add :: "ieee \<Rightarrow> ieee \<Rightarrow> ieee" where
  "ieee_add x y =
     (case x of
        NaN \<Rightarrow> NaN
      | Infinity s \<Rightarrow>
          (case y of
             NaN \<Rightarrow> NaN
           | Infinity t \<Rightarrow> if s = t then Infinity s else NaN
           | Finite t n f \<Rightarrow> Infinity s)
      | Finite s m e \<Rightarrow>
          (case y of
             NaN \<Rightarrow> NaN
           | Infinity t \<Rightarrow> Infinity t
           | Finite t n f \<Rightarrow>
               (let g = min e f;
                    a = (if s then - 1 else 1) * int (m * 2 ^ nat (e - g));
                    b = (if t then - 1 else 1) * int (n * 2 ^ nat (f - g));
                    v = a + b
                in if v = 0 then Finite (s \<and> t) 0 (- 1074)
                   else round_nearest_even (v < 0) (nat \<bar>v\<bar>) g)))"

text \<open>A NaN with the quiet bit set.\<close>
definition quiet :: "double \<Rightarrow> double" where
  "quiet w = w OR 0x0008000000000000"

text \<open>The \<open>a + b\<close> of two doubles in C. IEEE 754 leaves the sign and the payload of a NaN
  result open: a NaN operand is returned with the quiet bit set, the first operand
  before the second, as x86-64 does.\<close>
definition double_add :: "double \<Rightarrow> double \<Rightarrow> double" where
  "double_add a b =
     (if double_decode a = NaN then quiet a
      else if double_decode b = NaN then quiet b
      else double_encode (ieee_add (double_decode a) (double_decode b)))"

section \<open>Calling values\<close>

text \<open>Modelled from the spec: \<open>newInstance\<close> of object.c, a new Instance of the class
  with an empty field table.\<close>
definition newInstance :: "nat \<Rightarrow> VM \<Rightarrow> nat \<times> VM" where
  "newInstance k vm = allocateObject (InstanceObj \<lparr>klass = k, inst_fields = Map.empty\<rparr>) vm"

definition callValue :: "Value \<Rightarrow> int \<Rightarrow> VM \<Rightarrow> (bool \<times> VM) option" where
  "callValue callee argCount vm =
     (case callee of
        OBJ_VAL a \<Rightarrow>
          (case obj_at vm a of
             None \<Rightarrow> None
           | Some (BoundMethodObj bound) \<Rightarrow>
               do {
                 i \<leftarrow> stack_index vm (- argCount - 1);
                 call (bound_method bound) argCount (vm\<lparr>stack := (stack vm)[i := receiver bound]\<rparr>)
               }
           | Some (ClassObj cls) \<Rightarrow>
               do {
                 i \<leftarrow> stack_index vm (- argCount - 1);
                 let (inst, vm1) = newInstance a vm;
                 let vm2 = vm1\<lparr>stack := (stack vm1)[i := OBJ_VAL inst]\<rparr>;
                 case tableGet (methods cls) (initString vm2) of
                   Some initializer \<Rightarrow> do { c \<leftarrow> AS_OBJ initializer; call c argCount vm2 }
                 | None \<Rightarrow>
                     if argCount \<noteq> 0 then
                       do {
                         vm3 \<leftarrow> runtimeError (''Expected 0 arguments but got ''
                                                @ show_int argCount @ ''.'') vm2;
                         Some (False, vm3)
                       }
                     else Some (True, vm2)
               }
           | Some (ClosureObj c) \<Rightarrow> call a argCount vm
           | Some (NativeObj native) \<Rightarrow>
               if 0 \<le> argCount \<and> argCount + 1 \<le> int (stackTop vm)
                  \<and> stackTop vm \<le> length (stack vm)
               then
                 (let n = nat argCount;
                      result = native argCount (take n (drop (stackTop vm - n) (stack vm)))
                  in map_option (Pair True) (push result (vm\<lparr>stackTop := stackTop vm - (n + 1)\<rparr>)))
               else None
           | Some _ \<Rightarrow>
               do { vm' \<leftarrow> runtimeError ''Can only call functions and classes.'' vm;
                    Some (False, vm') })
      | _ \<Rightarrow>
          do { vm' \<leftarrow> runtimeError ''Can only call functions and classes.'' vm;
               Some (False, vm') })"

definition op_call :: "VM \<Rightarrow> (Control \<times> VM) option" where
  "op_call vm =
     do {
       (b, vm1) \<leftarrow> READ_BYTE vm;
       callee \<leftarrow> peek (uint b) vm1;
       (ok, vm2) \<leftarrow> callValue callee (uint b) vm1;
       if ok then Some (DISPATCH, vm2) else Some (RETURN INTERPRET_RUNTIME_ERROR, vm2)
     }"

section \<open>Upvalues\<close>

text \<open>Reading and writing through a \<open>Value *\<close>.\<close>
definition deref :: "VM \<Rightarrow> ValuePtr \<Rightarrow> Value option" where
  "deref vm p =
     (case p of
        StackPtr i \<Rightarrow> if i < length (stack vm) then Some (stack vm ! i) else None
      | ClosedPtr a \<Rightarrow> map_option closed (upvalue_at vm a))"

definition store :: "ValuePtr \<Rightarrow> Value \<Rightarrow> VM \<Rightarrow> VM option" where
  "store p v vm =
     (case p of
        StackPtr i \<Rightarrow>
          if i < length (stack vm) then Some (vm\<lparr>stack := (stack vm)[i := v]\<rparr>) else None
      | ClosedPtr a \<Rightarrow>
          do { u \<leftarrow> upvalue_at vm a; set_obj a (UpvalueObj (u\<lparr>closed := v\<rparr>)) vm })"

text \<open>\<open>frame->closure->upvalues[slot]\<close>.\<close>
definition frame_upvalue :: "VM \<Rightarrow> 8 word \<Rightarrow> ObjUpvalue option" where
  "frame_upvalue vm slot =
     do {
       frame \<leftarrow> current_frame vm;
       c \<leftarrow> closure_at vm (closure frame);
       if unat slot < length (upvalues c)
       then do { a \<leftarrow> upvalues c ! unat slot; upvalue_at vm a }
       else None
     }"

definition op_get_upvalue :: "VM \<Rightarrow> (Control \<times> VM) option" where
  "op_get_upvalue vm =
     do {
       (slot, vm1) \<leftarrow> READ_BYTE vm;
       u \<leftarrow> frame_upvalue vm1 slot;
       v \<leftarrow> deref vm1 (location u);
       vm2 \<leftarrow> push v vm1;
       Some (DISPATCH, vm2)
     }"

definition op_set_upvalue :: "VM \<Rightarrow> (Control \<times> VM) option" where
  "op_set_upvalue vm =
     do {
       (slot, vm1) \<leftarrow> READ_BYTE vm;
       v \<leftarrow> peek 0 vm1;
       u \<leftarrow> frame_upvalue vm1 slot;
       vm2 \<leftarrow> store (location u) v vm1;
       Some (DISPATCH, vm2)
     }"

text \<open>Modelled from the spec: \<open>newUpvalue\<close> of object.c, a new open upvalue for the
  slot, not yet linked.\<close>
definition newUpvalue :: "nat \<Rightarrow> VM \<Rightarrow> nat \<times> VM" where
  "newUpvalue slot vm =
     allocateObject
       (UpvalueObj \<lparr>location = StackPtr slot, closed = NIL_VAL, next_upvalue = None\<rparr>) vm"

text \<open>The loop of \<open>captureUpvalue\<close>: it returns \<open>prevUpvalue\<close> and \<open>upvalue\<close> as they
  are when the loop ends.\<close>
partial_function (option) captureUpvalue_loop ::
  "VM \<Rightarrow> nat \<Rightarrow> nat option \<Rightarrow> nat option \<Rightarrow> (nat option \<times> nat option) option" where
  "captureUpvalue_loop vm local prevUpvalue upvalue =
     (case upvalue of
        None \<Rightarrow> Some (prevUpvalue, upvalue)
      | Some a \<Rightarrow>
          (case upvalue_at vm a of
             None \<Rightarrow> None
           | Some u \<Rightarrow>
               (case location u of
                  ClosedPtr c \<Rightarrow> None
                | StackPtr k \<Rightarrow>
                    if k > local then captureUpvalue_loop vm local upvalue (next_upvalue u)
                    else Some (prevUpvalue, upvalue))))"

definition captureUpvalue :: "nat \<Rightarrow> VM \<Rightarrow> (nat \<times> VM) option" where
  "captureUpvalue local vm =
     do {
       (prevUpvalue, upvalue) \<leftarrow> captureUpvalue_loop vm local None (openUpvalues vm);
       found \<leftarrow> (case upvalue of
                   None \<Rightarrow> Some None
                 | Some a \<Rightarrow>
                     do { u \<leftarrow> upvalue_at vm a;
                          Some (if location u = StackPtr local then Some a else None) });
       case found of
         Some a \<Rightarrow> Some (a, vm)
       | None \<Rightarrow>
           do {
             let (createdUpvalue, vm1) = newUpvalue local vm;
             cu \<leftarrow> upvalue_at vm1 createdUpvalue;
             vm2 \<leftarrow> set_obj createdUpvalue (UpvalueObj (cu\<lparr>next_upvalue := upvalue\<rparr>)) vm1;
             case prevUpvalue of
               None \<Rightarrow> Some (createdUpvalue, vm2\<lparr>openUpvalues := Some createdUpvalue\<rparr>)
             | Some p \<Rightarrow>
                 do {
                   pu \<leftarrow> upvalue_at vm2 p;
                   vm3 \<leftarrow> set_obj p (UpvalueObj (pu\<lparr>next_upvalue := Some createdUpvalue\<rparr>)) vm2;
                   Some (createdUpvalue, vm3)
                 }
           }
     }"

text \<open>An object that is an upvalue whose location is a stack slot.\<close>
definition is_open :: "Obj \<Rightarrow> bool" where
  "is_open ob =
     (case ob of
        UpvalueObj u \<Rightarrow> (case location u of StackPtr k \<Rightarrow> True | ClosedPtr c \<Rightarrow> False)
      | _ \<Rightarrow> False)"

function closeUpvalues :: "nat \<Rightarrow> VM \<Rightarrow> VM option" where
  "closeUpvalues from vm =
     (case openUpvalues vm of
        None \<Rightarrow> Some vm
      | Some a \<Rightarrow>
          (case upvalue_at vm a of
             None \<Rightarrow> None
           | Some u \<Rightarrow>
               (case location u of
                  ClosedPtr c \<Rightarrow> None
                | StackPtr k \<Rightarrow>
                    if k \<ge> from then
                      (if k < length (stack vm) then
                         closeUpvalues from
                           (vm\<lparr>heap := (heap vm)[a := UpvalueObj
                                         (u\<lparr>closed := stack vm ! k, location := ClosedPtr a\<rparr>)],
                               openUpvalues := next_upvalue u\<rparr>)
                       else None)
                    else Some vm)))"
  by pat_completeness auto
termination
proof (relation "measure (\<lambda>(from, vm). length (filter is_open (heap vm)))", goal_cases)
  case 1
  show ?case by simp
next
  case (2 l vm a u k)
  have closing_decreases: "a < length h \<Longrightarrow> is_open (h ! a) \<Longrightarrow> \<not> is_open ob \<Longrightarrow>
      length (filter is_open (h[a := ob])) < length (filter is_open h)" for h a ob
  proof (induction h arbitrary: a)
    case Nil
    then show ?case by simp
  next
    case (Cons x xs)
    show ?case
    proof (cases a)
      case 0
      with Cons.prems show ?thesis by simp
    next
      case (Suc b)
      with Cons.prems have "length (filter is_open (xs[b := ob])) < length (filter is_open xs)"
        by (intro Cons.IH) simp_all
      with Suc show ?thesis by simp
    qed
  qed
  from 2(2) have a: "a < length (heap vm)" and h: "heap vm ! a = UpvalueObj u"
    by (auto simp: upvalue_at_def obj_at_def split: if_splits option.splits Obj.splits)
  from h 2(3) have "is_open (heap vm ! a)"
    by (simp add: is_open_def)
  moreover have "\<not> is_open (UpvalueObj (u\<lparr>closed := stack vm ! k, location := ClosedPtr a\<rparr>))"
    by (simp add: is_open_def)
  ultimately show ?case
    using a by (simp add: closing_decreases)
qed

declare closeUpvalues.simps [simp del]

section \<open>Instructions\<close>

definition op_return :: "VM \<Rightarrow> (Control \<times> VM) option" where
  "op_return vm =
     do {
       (result, vm1) \<leftarrow> pop vm;
       frame \<leftarrow> current_frame vm1;
       vm2 \<leftarrow> closeUpvalues (slots frame) vm1;
       let vm3 = vm2\<lparr>frameCount := frameCount vm2 - 1\<rparr>;
       if frameCount vm3 = 0 then
         do { (v, vm4) \<leftarrow> pop vm3; Some (RETURN INTERPRET_OK, vm4) }
       else
         do { vm5 \<leftarrow> push result (vm3\<lparr>stackTop := slots frame\<rparr>); Some (DISPATCH, vm5) }
     }"

text \<open>Modelled from the spec: \<open>takeString\<close> of object.c returns the canonical string
  object for the bytes: the interned one when there is one, a new interned one otherwise.\<close>
definition takeString :: "string \<Rightarrow> VM \<Rightarrow> nat \<times> VM" where
  "takeString chars vm =
     (case strings vm chars of
        Some a \<Rightarrow> (a, vm)
      | None \<Rightarrow>
          (let (a, vm') = allocateObject (StringObj chars) vm
           in (a, vm'\<lparr>strings := (strings vm')(chars \<mapsto> a)\<rparr>)))"

text \<open>The largest \<open>int\<close> (32 bits).\<close>
definition INT_MAX :: nat where
  "INT_MAX = 2147483647"

text \<open>The lengths are \<open>int\<close>s: the sum \<open>a->length + b->length\<close> and the \<open>length + 1\<close> of the
  allocation are defined only when they do not exceed \<open>INT_MAX\<close>.\<close>
definition concatenate :: "VM \<Rightarrow> VM option" where
  "concatenate vm =
     do {
       vb \<leftarrow> peek 0 vm; pb \<leftarrow> AS_OBJ vb;
       va \<leftarrow> peek 1 vm; pa \<leftarrow> AS_OBJ va;
       a \<leftarrow> string_at vm pa;
       b \<leftarrow> string_at vm pb;
       if length a + length b + 1 \<le> INT_MAX then
         do {
           let (result, vm1) = takeString (a @ b) vm;
           (x, vm2) \<leftarrow> pop vm1;
           (y, vm3) \<leftarrow> pop vm2;
           push (OBJ_VAL result) vm3
         }
       else None
     }"

definition op_add :: "VM \<Rightarrow> (Control \<times> VM) option" where
  "op_add vm =
     do {
       v0 \<leftarrow> peek 0 vm;
       s0 \<leftarrow> IS_STRING vm v0;
       strs \<leftarrow> (if s0 then do { v1 \<leftarrow> peek 1 vm; IS_STRING vm v1 } else Some False);
       if strs then do { vm' \<leftarrow> concatenate vm; Some (DISPATCH, vm') }
       else
         do {
           nums \<leftarrow> (if IS_NUMBER v0 then do { v1 \<leftarrow> peek 1 vm; Some (IS_NUMBER v1) }
                     else Some False);
           if nums then
             do {
               (vb, vm1) \<leftarrow> pop vm; b \<leftarrow> AS_NUMBER vb;
               (va, vm2) \<leftarrow> pop vm1; a \<leftarrow> AS_NUMBER va;
               vm3 \<leftarrow> push (NUMBER_VAL (double_add a b)) vm2;
               Some (DISPATCH, vm3)
             }
           else
             do {
               vm' \<leftarrow> runtimeError ''Operands must be two numbers or two strings.'' vm;
               Some (RETURN INTERPRET_RUNTIME_ERROR, vm')
             }
         }
     }"

definition op_set_global :: "VM \<Rightarrow> (Control \<times> VM) option" where
  "op_set_global vm =
     do {
       (name, vm1) \<leftarrow> READ_STRING vm;
       v \<leftarrow> peek 0 vm1;
       let (g, isNew) = tableSet (globals vm1) name v;
       let vm2 = vm1\<lparr>globals := g\<rparr>;
       if isNew then
         do {
           let vm3 = vm2\<lparr>globals := tableDelete (globals vm2) name\<rparr>;
           chars \<leftarrow> string_at vm3 name;
           vm4 \<leftarrow> runtimeError (''Undefined variable '' @ [CHR 0x27] @ chars @ [CHR 0x27] @ ''.'') vm3;
           Some (RETURN INTERPRET_RUNTIME_ERROR, vm4)
         }
       else Some (DISPATCH, vm2)
     }"

definition defineMethod :: "nat \<Rightarrow> VM \<Rightarrow> VM option" where
  "defineMethod name vm =
     do {
       method \<leftarrow> peek 0 vm;
       kv \<leftarrow> peek 1 vm;
       k \<leftarrow> AS_OBJ kv;
       cls \<leftarrow> class_at vm k;
       vm1 \<leftarrow> set_obj k (ClassObj (cls\<lparr>methods := fst (tableSet (methods cls) name method)\<rparr>)) vm;
       (x, vm2) \<leftarrow> pop vm1;
       Some vm2
     }"

definition op_method :: "VM \<Rightarrow> (Control \<times> VM) option" where
  "op_method vm =
     do { (name, vm1) \<leftarrow> READ_STRING vm; vm2 \<leftarrow> defineMethod name vm1; Some (DISPATCH, vm2) }"

definition op_inherit :: "VM \<Rightarrow> (Control \<times> VM) option" where
  "op_inherit vm =
     do {
       superclass \<leftarrow> peek 1 vm;
       isc \<leftarrow> IS_CLASS vm superclass;
       if \<not> isc then
         do {
           vm' \<leftarrow> runtimeError ''Superclass must be a class.'' vm;
           Some (RETURN INTERPRET_RUNTIME_ERROR, vm')
         }
       else
         do {
           sv \<leftarrow> peek 0 vm;
           sub \<leftarrow> AS_OBJ sv;
           subclass \<leftarrow> class_at vm sub;
           sup \<leftarrow> AS_OBJ superclass;
           super \<leftarrow> class_at vm sup;
           vm1 \<leftarrow> set_obj sub
                   (ClassObj (subclass\<lparr>methods := tableAddAll (methods super) (methods subclass)\<rparr>)) vm;
           (x, vm2) \<leftarrow> pop vm1;
           Some (DISPATCH, vm2)
         }
     }"

definition op_constant :: "VM \<Rightarrow> (Control \<times> VM) option" where
  "op_constant vm =
     do { (constant, vm1) \<leftarrow> READ_CONSTANT vm; vm2 \<leftarrow> push constant vm1; Some (DISPATCH, vm2) }"

definition op_nil :: "VM \<Rightarrow> (Control \<times> VM) option" where
  "op_nil vm = do { vm1 \<leftarrow> push NIL_VAL vm; Some (DISPATCH, vm1) }"

definition op_true :: "VM \<Rightarrow> (Control \<times> VM) option" where
  "op_true vm = do { vm1 \<leftarrow> push (BOOL_VAL True) vm; Some (DISPATCH, vm1) }"

definition op_false :: "VM \<Rightarrow> (Control \<times> VM) option" where
  "op_false vm = do { vm1 \<leftarrow> push (BOOL_VAL False) vm; Some (DISPATCH, vm1) }"

definition op_pop :: "VM \<Rightarrow> (Control \<times> VM) option" where
  "op_pop vm = do { (v, vm1) \<leftarrow> pop vm; Some (DISPATCH, vm1) }"

definition op_get_local :: "VM \<Rightarrow> (Control \<times> VM) option" where
  "op_get_local vm =
     do {
       (slot, vm1) \<leftarrow> READ_BYTE vm;
       frame \<leftarrow> current_frame vm1;
       if slots frame + unat slot < length (stack vm1) then
         do { vm2 \<leftarrow> push (stack vm1 ! (slots frame + unat slot)) vm1; Some (DISPATCH, vm2) }
       else None
     }"

definition op_set_local :: "VM \<Rightarrow> (Control \<times> VM) option" where
  "op_set_local vm =
     do {
       (slot, vm1) \<leftarrow> READ_BYTE vm;
       frame \<leftarrow> current_frame vm1;
       v \<leftarrow> peek 0 vm1;
       if slots frame + unat slot < length (stack vm1)
       then Some (DISPATCH, vm1\<lparr>stack := (stack vm1)[slots frame + unat slot := v]\<rparr>)
       else None
     }"

definition op_get_global :: "VM \<Rightarrow> (Control \<times> VM) option" where
  "op_get_global vm =
     do {
       (name, vm1) \<leftarrow> READ_STRING vm;
       case tableGet (globals vm1) name of
         None \<Rightarrow>
           do {
             chars \<leftarrow> string_at vm1 name;
             vm2 \<leftarrow> runtimeError (''Undefined variable '' @ [CHR 0x27] @ chars @ [CHR 0x27] @ ''.'') vm1;
             Some (RETURN INTERPRET_RUNTIME_ERROR, vm2)
           }
       | Some v \<Rightarrow> do { vm2 \<leftarrow> push v vm1; Some (DISPATCH, vm2) }
     }"

definition op_define_global :: "VM \<Rightarrow> (Control \<times> VM) option" where
  "op_define_global vm =
     do {
       (name, vm1) \<leftarrow> READ_STRING vm;
       v \<leftarrow> peek 0 vm1;
       (x, vm2) \<leftarrow> pop (vm1\<lparr>globals := fst (tableSet (globals vm1) name v)\<rparr>);
       Some (DISPATCH, vm2)
     }"

definition op_not :: "VM \<Rightarrow> (Control \<times> VM) option" where
  "op_not vm =
     do { (v, vm1) \<leftarrow> pop vm; vm2 \<leftarrow> push (BOOL_VAL (isFalsey v)) vm1; Some (DISPATCH, vm2) }"

definition op_close_upvalue :: "VM \<Rightarrow> (Control \<times> VM) option" where
  "op_close_upvalue vm =
     (if 0 < stackTop vm then
        do {
          vm1 \<leftarrow> closeUpvalues (stackTop vm - 1) vm;
          (x, vm2) \<leftarrow> pop vm1;
          Some (DISPATCH, vm2)
        }
      else None)"

text \<open>Modelled from the spec: \<open>newClass\<close> of object.c, a new class of that name with an
  empty method table.\<close>
definition newClass :: "nat \<Rightarrow> VM \<Rightarrow> nat \<times> VM" where
  "newClass name vm = allocateObject (ClassObj \<lparr>class_name = name, methods = Map.empty\<rparr>) vm"

definition op_class :: "VM \<Rightarrow> (Control \<times> VM) option" where
  "op_class vm =
     do {
       (name, vm1) \<leftarrow> READ_STRING vm;
       let (k, vm2) = newClass name vm1;
       vm3 \<leftarrow> push (OBJ_VAL k) vm2;
       Some (DISPATCH, vm3)
     }"

text \<open>Modelled from the spec: \<open>newClosure\<close> of object.c, a new closure of the function
  with \<open>function->upvalueCount\<close> upvalue pointers, all \<open>NULL\<close>.\<close>
definition newClosure :: "nat \<Rightarrow> VM \<Rightarrow> (nat \<times> VM) option" where
  "newClosure f vm =
     do {
       fn \<leftarrow> function_at vm f;
       if 0 \<le> fn_upvalueCount fn
       then Some (allocateObject
                    (ClosureObj \<lparr>func = f, upvalues = replicate (nat (fn_upvalueCount fn)) None\<rparr>) vm)
       else None
     }"

text \<open>The loop of \<open>OP_CLOSURE\<close> over the upvalues of the closure at address \<open>c\<close>, from
  index \<open>i\<close>, with \<open>n\<close> the number of upvalues that remain.\<close>
fun closure_upvalues :: "nat \<Rightarrow> nat \<Rightarrow> nat \<Rightarrow> VM \<Rightarrow> VM option" where
  "closure_upvalues c i 0 vm = Some vm"
| "closure_upvalues c i (Suc n) vm =
     do {
       (isLocal, vm1) \<leftarrow> READ_BYTE vm;
       (index, vm2) \<leftarrow> READ_BYTE vm1;
       frame \<leftarrow> current_frame vm2;
       (u, vm3) \<leftarrow>
         (if isLocal \<noteq> 0 then
            do { (a, vm') \<leftarrow> captureUpvalue (slots frame + unat index) vm2; Some (Some a, vm') }
          else
            do {
              fc \<leftarrow> closure_at vm2 (closure frame);
              if unat index < length (upvalues fc) then Some (upvalues fc ! unat index, vm2)
              else None
            });
       cl \<leftarrow> closure_at vm3 c;
       if i < length (upvalues cl) then
         do {
           vm4 \<leftarrow> set_obj c (ClosureObj (cl\<lparr>upvalues := (upvalues cl)[i := u]\<rparr>)) vm3;
           closure_upvalues c (i + 1) n vm4
         }
       else None
     }"

definition op_closure :: "VM \<Rightarrow> (Control \<times> VM) option" where
  "op_closure vm =
     do {
       (v, vm1) \<leftarrow> READ_CONSTANT vm;
       f \<leftarrow> AS_OBJ v;
       (c, vm2) \<leftarrow> newClosure f vm1;
       vm3 \<leftarrow> push (OBJ_VAL c) vm2;
       cl \<leftarrow> closure_at vm3 c;
       vm4 \<leftarrow> closure_upvalues c 0 (length (upvalues cl)) vm3;
       Some (DISPATCH, vm4)
     }"

section \<open>The dispatch loop\<close>

text \<open>The array \<open>dispatchTable\<close> of \<open>run\<close>. The instructions that are not embedded above
  are the parameter \<open>other\<close>, applied to their index in the table.\<close>
definition dispatchTable ::
  "(nat \<Rightarrow> VM \<Rightarrow> (Control \<times> VM) option) \<Rightarrow> (VM \<Rightarrow> (Control \<times> VM) option) list" where
  "dispatchTable other =
     [op_constant, op_nil,
      op_true, op_false,
      op_get_upvalue, op_set_upvalue,
      other 6, other 7,
      other 8, other 9,
      op_pop, op_get_local,
      op_set_local, op_get_global,
      op_define_global, op_set_global,
      other 16, other 17,
      op_add, other 19,
      other 20, other 21,
      op_not, other 23,
      other 24, op_jump,
      op_jump_if_false, op_loop,
      op_call, other 29,
      other 30, op_closure,
      op_close_upvalue, op_return,
      op_class, op_inherit,
      op_method]"

text \<open>\<open>DISPATCH()\<close>: \<open>goto *dispatchTable[*frame->ip++]\<close>, up to the next \<open>DISPATCH()\<close> or
  \<open>return\<close>. A byte that is no index of the table has no result. The trace that
  \<open>DISPATCH()\<close> prints to stdout is not part of the state.\<close>
definition dispatch ::
  "(nat \<Rightarrow> VM \<Rightarrow> (Control \<times> VM) option) \<Rightarrow> VM \<Rightarrow> (Control \<times> VM) option" where
  "dispatch other vm =
     do {
       (b, vm1) \<leftarrow> READ_BYTE vm;
       if unat b < length (dispatchTable other) then (dispatchTable other ! unat b) vm1
       else None
     }"

text \<open>The first \<open>n\<close> instructions that \<open>run\<close> executes: the result \<open>DISPATCH\<close> says that
  \<open>run\<close> has not returned yet.\<close>
fun run :: "(nat \<Rightarrow> VM \<Rightarrow> (Control \<times> VM) option) \<Rightarrow> nat \<Rightarrow> VM \<Rightarrow> (Control \<times> VM) option" where
  "run other 0 vm = Some (DISPATCH, vm)"
| "run other (Suc n) vm =
     (case dispatch other vm of
        None \<Rightarrow> None
      | Some (DISPATCH, vm') \<Rightarrow> run other n vm'
      | Some (RETURN r, vm') \<Rightarrow> Some (RETURN r, vm'))"


section \<open>Method declarations\<close>





section \<open>Well-formed operands\<close>


section \<open>The open-upvalue list as a list\<close>

text \<open>\<open>open_list vm p us\<close>: following \<open>next\<close> from the pointer \<open>p\<close> visits exactly the
  nodes \<open>us\<close>, given as pairs of the upvalue's address and the stack slot its location
  points to, and ends at \<open>NULL\<close>; every node is an open upvalue.\<close>
fun open_list :: "VM \<Rightarrow> nat option \<Rightarrow> (nat \<times> nat) list \<Rightarrow> bool" where
  "open_list vm p [] = (p = None)"
| "open_list vm p ((a, k) # us) =
     (p = Some a \<and>
      (case upvalue_at vm a of
         None \<Rightarrow> False
       | Some u \<Rightarrow> location u = StackPtr k \<and> open_list vm (next_upvalue u) us))"

text \<open>The invariant of \<open>vm.openUpvalues\<close>: the list is sorted by strictly decreasing stack
  slot, so no two nodes refer to the same slot.\<close>
definition open_upvalues_sorted :: "VM \<Rightarrow> (nat \<times> nat) list \<Rightarrow> bool" where
  "open_upvalues_sorted vm us =
     (open_list vm (openUpvalues vm) us \<and> sorted_wrt (\<lambda>k k'. k > k') (map snd us))"

text \<open>The pointer to the first node of a list of nodes.\<close>
fun first_node :: "(nat \<times> nat) list \<Rightarrow> nat option" where
  "first_node [] = None"
| "first_node ((a, k) # us) = Some a"

section \<open>Example machine states\<close>

text \<open>A script closure (function at address 0, closure at address 1, the string
  \<open>init\<close> at address 2) running in frame 0 with the given code, instruction pointer
  and stack contents.\<close>
definition script_vm :: "8 word list \<Rightarrow> nat \<Rightarrow> Value list \<Rightarrow> nat \<Rightarrow> VM" where
  "script_vm cd i st sp =
     \<lparr>frames = [\<lparr>closure = 1, ip = i, slots = 0\<rparr>, \<lparr>closure = 1, ip = 0, slots = 0\<rparr>],
      frameCount = 1,
      stack = st, stackTop = sp,
      globals = Map.empty, strings = [''init'' \<mapsto> 2], initString = 2,
      openUpvalues = None,
      heap = [FunctionObj \<lparr>arity = 0, fn_upvalueCount = 0,
                           chunk = \<lparr>code = cd, lines = map (\<lambda>b. 7) cd, constants = [OBJ_VAL 2]\<rparr>,
                           fn_name = None\<rparr>,
              ClosureObj \<lparr>func = 0, upvalues = []\<rparr>,
              StringObj ''init''],
      err = []\<rparr>"

text \<open>A machine whose frame stack is full: \<open>FRAMES_MAX\<close> activations of the function
  \<open>f\<close> (arity 1, at address 0, closure at address 1, name at address 2).\<close>
definition deep_vm :: VM where
  "deep_vm =
     \<lparr>frames = replicate 64 \<lparr>closure = 1, ip = 1, slots = 0\<rparr>,
      frameCount = 64,
      stack = [OBJ_VAL 1, NIL_VAL, NIL_VAL], stackTop = 3,
      globals = Map.empty, strings = [''f'' \<mapsto> 2], initString = 2,
      openUpvalues = None,
      heap = [FunctionObj \<lparr>arity = 1, fn_upvalueCount = 0,
                           chunk = \<lparr>code = [1, 1], lines = [3, 3], constants = []\<rparr>,
                           fn_name = Some 2\<rparr>,
              ClosureObj \<lparr>func = 0, upvalues = []\<rparr>,
              StringObj ''f''],
      err = []\<rparr>"

text \<open>The script (function 0, closure 1) has called \<open>g\<close> (function 2 of arity 2,
  closure 3, name at address 4); the stack holds the script closure, \<open>g\<close> and one
  argument.\<close>
definition two_frame_vm :: VM where
  "two_frame_vm =
     \<lparr>frames = [\<lparr>closure = 1, ip = 5, slots = 0\<rparr>, \<lparr>closure = 3, ip = 2, slots = 1\<rparr>,
                \<lparr>closure = 0, ip = 0, slots = 0\<rparr>],
      frameCount = 2,
      stack = [OBJ_VAL 1, OBJ_VAL 3, NIL_VAL, NIL_VAL], stackTop = 3,
      globals = Map.empty, strings = [''g'' \<mapsto> 4], initString = 4,
      openUpvalues = None,
      heap = [FunctionObj \<lparr>arity = 0, fn_upvalueCount = 0,
                           chunk = \<lparr>code = [1, 1, 1, 28, 1], lines = [1, 1, 1, 1, 1],
                                    constants = []\<rparr>,
                           fn_name = None\<rparr>,
              ClosureObj \<lparr>func = 0, upvalues = []\<rparr>,
              FunctionObj \<lparr>arity = 2, fn_upvalueCount = 0,
                           chunk = \<lparr>code = [28, 1, 33], lines = [9, 9, 9], constants = []\<rparr>,
                           fn_name = Some 4\<rparr>,
              ClosureObj \<lparr>func = 2, upvalues = []\<rparr>,
              StringObj ''g''],
      err = []\<rparr>"


text \<open>The state of \<open>{ var x = 1; fun inner() { x = 2; } inner(); }\<close> inside \<open>inner\<close>,
  before the instruction that assigns to \<open>x\<close>: the script (function 0, closure 1) holds
  \<open>x\<close> in slot 1; \<open>inner\<close> (function 2, closure 4) runs in frame 1 and captures \<open>x\<close>
  through the open upvalue at address 5. The code of \<open>inner\<close> is the opcode \<open>op\<close> with
  operand 0.\<close>
definition upvalue_vm :: "8 word \<Rightarrow> VM" where
  "upvalue_vm op =
     \<lparr>frames = [\<lparr>closure = 1, ip = 9, slots = 0\<rparr>, \<lparr>closure = 4, ip = 1, slots = 3\<rparr>],
      frameCount = 2,
      stack = [OBJ_VAL 1, NUMBER_VAL 1, OBJ_VAL 4, OBJ_VAL 4, NUMBER_VAL 2, NIL_VAL], stackTop = 5,
      globals = Map.empty, strings = [''inner'' \<mapsto> 3], initString = 3,
      openUpvalues = Some 5,
      heap = [FunctionObj \<lparr>arity = 0, fn_upvalueCount = 0,
                           chunk = \<lparr>code = replicate 10 0, lines = replicate 10 1, constants = []\<rparr>,
                           fn_name = None\<rparr>,
              ClosureObj \<lparr>func = 0, upvalues = []\<rparr>,
              FunctionObj \<lparr>arity = 0, fn_upvalueCount = 1,
                           chunk = \<lparr>code = [op, 0, 10], lines = [1, 1, 1], constants = []\<rparr>,
                           fn_name = Some 3\<rparr>,
              StringObj ''inner'',
              ClosureObj \<lparr>func = 2, upvalues = [Some 5]\<rparr>,
              UpvalueObj \<lparr>location = StackPtr 1, closed = NIL_VAL, next_upvalue = None\<rparr>],
      err = []\<rparr>"

text \<open>A script frame about to call the class \<open>A\<close> (address 3, name at address 4) with the
  given method table; the stack holds the script closure, the class and \<open>argc\<close> arguments
  \<open>nil\<close>. The closure at address 6 (function 5, arity 1) is a method.\<close>
definition class_vm :: "Table \<Rightarrow> nat \<Rightarrow> VM" where
  "class_vm ms argc =
     \<lparr>frames = [\<lparr>closure = 1, ip = 2, slots = 0\<rparr>, \<lparr>closure = 1, ip = 0, slots = 0\<rparr>],
      frameCount = 1,
      stack = [OBJ_VAL 1, OBJ_VAL 3] @ replicate argc NIL_VAL @ [NIL_VAL], stackTop = 2 + argc,
      globals = Map.empty, strings = [''init'' \<mapsto> 2, ''A'' \<mapsto> 4], initString = 2,
      openUpvalues = None,
      heap = [FunctionObj \<lparr>arity = 0, fn_upvalueCount = 0,
                           chunk = \<lparr>code = [28, 0, 33], lines = [4, 4, 4], constants = []\<rparr>,
                           fn_name = None\<rparr>,
              ClosureObj \<lparr>func = 0, upvalues = []\<rparr>,
              StringObj ''init'',
              ClassObj \<lparr>class_name = 4, methods = ms\<rparr>,
              StringObj ''A'',
              FunctionObj \<lparr>arity = 1, fn_upvalueCount = 0,
                           chunk = \<lparr>code = [33], lines = [2], constants = []\<rparr>,
                           fn_name = Some 2\<rparr>,
              ClosureObj \<lparr>func = 5, upvalues = []\<rparr>],
      err = []\<rparr>"




text \<open>A frame with two captured locals: the open upvalue at address 2 for slot 4 and, next
  in the list, the open upvalue at address 3 for slot 2.\<close>
definition capture_vm :: VM where
  "capture_vm =
     \<lparr>frames = [\<lparr>closure = 1, ip = 3, slots = 0\<rparr>],
      frameCount = 1,
      stack = [OBJ_VAL 1, NIL_VAL, NUMBER_VAL 2, NUMBER_VAL 3, NUMBER_VAL 4, NIL_VAL], stackTop = 5,
      globals = Map.empty, strings = Map.empty, initString = 0,
      openUpvalues = Some 2,
      heap = [FunctionObj \<lparr>arity = 0, fn_upvalueCount = 0,
                           chunk = \<lparr>code = replicate 4 0, lines = replicate 4 1, constants = []\<rparr>,
                           fn_name = None\<rparr>,
              ClosureObj \<lparr>func = 0, upvalues = []\<rparr>,
              UpvalueObj \<lparr>location = StackPtr 4, closed = NIL_VAL, next_upvalue = Some 3\<rparr>,
              UpvalueObj \<lparr>location = StackPtr 2, closed = NIL_VAL, next_upvalue = None\<rparr>],
      err = []\<rparr>"

section \<open>Basic facts about the frame and the stack\<close>

lemma current_frame_set_ip:
  "current_frame vm = Some frame \<Longrightarrow> current_frame (set_ip i vm) = Some (frame\<lparr>ip := i\<rparr>)"
  by (auto simp: current_frame_def set_ip_def split: if_splits)

lemma same_heap:
  assumes "heap vm' = heap vm"
  shows "obj_at vm' = obj_at vm" "string_at vm' = string_at vm" "function_at vm' = function_at vm"
    "closure_at vm' = closure_at vm" "upvalue_at vm' = upvalue_at vm" "class_at vm' = class_at vm"
  using assms
  by (simp_all add: fun_eq_iff obj_at_def string_at_def function_at_def closure_at_def
      upvalue_at_def class_at_def)

lemma obj_at_set_ip [simp]: "obj_at (set_ip i vm) a = obj_at vm a"
  by (simp add: obj_at_def set_ip_def)

lemma objs_at_set_ip [simp]:
  "closure_at (set_ip i vm) a = closure_at vm a"
  "function_at (set_ip i vm) a = function_at vm a"
  "string_at (set_ip i vm) a = string_at vm a"
  "upvalue_at (set_ip i vm) a = upvalue_at vm a"
  "class_at (set_ip i vm) a = class_at vm a"
  by (simp_all add: closure_at_def function_at_def string_at_def upvalue_at_def class_at_def)

lemma frame_chunk_set_ip [simp]: "frame_chunk (set_ip i vm) fr = frame_chunk vm fr"
  by (simp add: frame_chunk_def)

lemma frame_chunk_ip_update [simp]: "frame_chunk vm (fr\<lparr>ip := i\<rparr>) = frame_chunk vm fr"
  by (simp add: frame_chunk_def)

lemma set_ip_set_ip [simp]: "set_ip j (set_ip i vm) = set_ip j vm"
  by (cases "frameCount vm - 1 < length (frames vm)") (simp_all add: set_ip_def list_update_beyond)

lemma peek_set_ip [simp]: "peek d (set_ip i vm) = peek d vm"
  by (simp add: peek_def stack_index_def set_ip_def)

lemma stack_set_ip [simp]:
  "stack (set_ip i vm) = stack vm" "stackTop (set_ip i vm) = stackTop vm"
  "heap (set_ip i vm) = heap vm" "frameCount (set_ip i vm) = frameCount vm"
  "globals (set_ip i vm) = globals vm" "openUpvalues (set_ip i vm) = openUpvalues vm"
  "err (set_ip i vm) = err vm" "strings (set_ip i vm) = strings vm"
  "initString (set_ip i vm) = initString vm"
  by (simp_all add: set_ip_def)

lemma set_ip_globals_same: "(set_ip i vm)\<lparr>globals := globals vm\<rparr> = set_ip i vm"
  by (simp add: set_ip_def)

lemma trace_line_cong:
  assumes f: "frames vm' = frames vm" and h: "heap vm' = heap vm"
  shows "trace_line vm' i = trace_line vm i"
  unfolding trace_line_def f same_heap [OF h] by (rule refl)

lemma stack_trace_cong:
  "frames vm' = frames vm \<Longrightarrow> heap vm' = heap vm \<Longrightarrow> stack_trace vm' n = stack_trace vm n"
  by (induction n) (simp_all add: trace_line_cong [of vm' vm])

lemma peek_0:
  "0 < stackTop vm \<Longrightarrow> stackTop vm \<le> length (stack vm) \<Longrightarrow>
   peek 0 vm = Some (stack vm ! (stackTop vm - 1))"
  by (auto simp: peek_def stack_index_def Let_def nat_diff_distrib'
      intro: arg_cong [where f = "nth (stack vm)"])



lemma push_eq:
  "stackTop vm < length (stack vm) \<Longrightarrow>
   push v vm = Some (vm\<lparr>stack := (stack vm)[stackTop vm := v], stackTop := stackTop vm + 1\<rparr>)"
  by (simp add: push_def)

lemma READ_BYTE_eq:
  assumes "current_frame vm = Some frame" and "frame_chunk vm frame = Some ch"
    and "ip frame < length (code ch)"
  shows "READ_BYTE vm = Some (code ch ! ip frame, set_ip (ip frame + 1) vm)"
  using assms by (simp add: READ_BYTE_def)

lemma READ_STRING_eq:
  assumes "current_frame vm = Some frame" and "frame_chunk vm frame = Some ch"
    and "ip frame < length (code ch)"
    and "unat (code ch ! ip frame) < length (constants ch)"
    and "constants ch ! unat (code ch ! ip frame) = OBJ_VAL name"
    and "string_at vm name = Some chars"
  shows "READ_STRING vm = Some (name, set_ip (ip frame + 1) vm)"
  using assms by (simp add: READ_STRING_def READ_CONSTANT_def READ_BYTE_eq AS_OBJ_def)

section \<open>Jump offsets\<close>

lemma unat_ucast_byte: "unat (ucast (b :: 8 word) :: 16 word) = unat b"
proof -
  have "unat b < 2 ^ 8"
    using unsigned_less [of b, where 'a = nat] by simp
  then show ?thesis
    by (simp add: unsigned_ucast_eq take_bit_nat_eq_self)
qed

lemma short_as_sum:
  "(ucast (push_bit 8 (ucast (hi :: 8 word) :: 32 word) OR (ucast (lo :: 8 word) :: 32 word)) :: 16 word)
     = push_bit 8 (ucast hi) + ucast lo"
proof -
  have "(ucast (push_bit 8 (ucast hi :: 32 word) OR (ucast lo :: 32 word)) :: 16 word)
          = push_bit 8 (ucast hi) OR ucast lo"
    by (rule bit_word_eqI) (auto simp: bit_simps)
  also have "\<dots> = push_bit 8 (ucast hi) + ucast lo"
    by (rule disjunctive_add [symmetric]) (auto simp: bit_simps dest: bit_imp_le_length)
  finally show ?thesis .
qed

lemma unat_short:
  "unat (ucast (push_bit 8 (ucast (hi :: 8 word) :: 32 word) OR (ucast (lo :: 8 word) :: 32 word)) :: 16 word)
     = 256 * unat hi + unat lo"
proof -
  have h: "unat hi < 256" and l: "unat lo < 256"
    using unsigned_less [of hi, where 'a = nat] unsigned_less [of lo, where 'a = nat]
    by simp_all
  have a: "unat (push_bit 8 (ucast hi :: 16 word)) = unat hi * 256"
  proof -
    have "unat (ucast hi :: 16 word) * unat (256 :: 16 word) < 2 ^ LENGTH(16)"
      using h by (simp add: unat_ucast_byte)
    then have "unat ((ucast hi :: 16 word) * 256) = unat (ucast hi :: 16 word) * unat (256 :: 16 word)"
      by (simp only: unat_mult_lem)
    then show ?thesis
      by (simp add: push_bit_eq_mult unat_ucast_byte)
  qed
  have "unat (push_bit 8 (ucast hi :: 16 word)) + unat (ucast lo :: 16 word) < 2 ^ LENGTH(16)"
    using h l by (simp add: a unat_ucast_byte)
  then have "unat (push_bit 8 (ucast hi :: 16 word) + ucast lo)
               = unat (push_bit 8 (ucast hi :: 16 word)) + unat (ucast lo :: 16 word)"
    by (simp only: unat_add_lem)
  then show ?thesis
    by (simp add: a unat_ucast_byte short_as_sum)
qed

lemma READ_SHORT_value:
  assumes "current_frame vm = Some frame" and "frame_chunk vm frame = Some ch"
    and "ip frame + 2 \<le> length (code ch)"
  shows "\<exists>offset. READ_SHORT vm = Some (offset, set_ip (ip frame + 2) vm)
           \<and> unat offset = 256 * unat (code ch ! ip frame) + unat (code ch ! (ip frame + 1))"
  using assms by (simp add: READ_SHORT_def unat_short)

section \<open>Facts about the dispatch loop\<close>











text \<open>
  C8 (amended). A jump offset is a 16-bit value stored as a big-endian byte pair: the first
  operand byte is the high byte, and \<open>READ_SHORT\<close> decodes the two operand bytes in order as
  \<open>hi << 8 | lo\<close>, advancing \<open>ip\<close> by 2. \<open>OP_JUMP\<close> adds the offset to \<open>ip\<close>, \<open>OP_LOOP\<close>
  subtracts it, and \<open>OP_JUMP_IF_FALSE\<close> adds it exactly when the top of the stack is falsey;
  it leaves that value on the stack.
\<close>

theorem C8_jump_offsets:
  assumes cf: "current_frame vm = Some frame" and ch: "frame_chunk vm frame = Some ch"
    and len: "ip frame + 2 \<le> length (code ch)"
    and off: "off = 256 * unat (code ch ! ip frame) + unat (code ch ! (ip frame + 1))"
  shows "map_option (unat \<circ> fst) (READ_SHORT vm) = Some off
       \<and> map_option snd (READ_SHORT vm) = Some (set_ip (ip frame + 2) vm)
       \<and> (ip frame + 2 + off \<le> length (code ch) \<longrightarrow>
            op_jump vm = Some (DISPATCH, set_ip (ip frame + 2 + off) vm))
       \<and> (off \<le> ip frame + 2 \<longrightarrow>
            op_loop vm = Some (DISPATCH, set_ip (ip frame + 2 - off) vm))
       \<and> (\<forall>v. peek 0 vm = Some v \<and> (isFalsey v \<longrightarrow> ip frame + 2 + off \<le> length (code ch)) \<longrightarrow>
            op_jump_if_false vm
              = Some (DISPATCH, set_ip (if isFalsey v then ip frame + 2 + off else ip frame + 2) vm)
            \<and> peek 0 (set_ip (if isFalsey v then ip frame + 2 + off else ip frame + 2) vm) = Some v
            \<and> stackTop (set_ip (if isFalsey v then ip frame + 2 + off else ip frame + 2) vm) = stackTop vm)"
proof -
  from READ_SHORT_value [OF cf ch len] off obtain offset where
    rs: "READ_SHORT vm = Some (offset, set_ip (ip frame + 2) vm)" and u: "unat offset = off"
    by auto
  have cf': "current_frame (set_ip (ip frame + 2) vm) = Some (frame\<lparr>ip := ip frame + 2\<rparr>)"
    by (rule current_frame_set_ip [OF cf])
  show ?thesis
    using rs u cf' ch
    by (auto simp: op_jump_def op_loop_def op_jump_if_false_def ip_add_def ip_sub_def)
qed


theorem C8_jump_offsets_witness:
  "op_jump (script_vm [25, 0, 2, 0, 0, 0] 1 [NIL_VAL] 1)
     = Some (DISPATCH, set_ip 5 (script_vm [25, 0, 2, 0, 0, 0] 1 [NIL_VAL] 1))
   \<and> op_loop (script_vm [25, 0, 2, 0, 0, 0] 1 [NIL_VAL] 1)
     = Some (DISPATCH, set_ip 1 (script_vm [25, 0, 2, 0, 0, 0] 1 [NIL_VAL] 1))
   \<and> op_jump_if_false (script_vm [25, 0, 2, 0, 0, 0] 1 [NIL_VAL] 1)
     = Some (DISPATCH, set_ip 5 (script_vm [25, 0, 2, 0, 0, 0] 1 [NIL_VAL] 1))"
proof -
  let ?vm = "script_vm [25, 0, 2, 0, 0, 0] 1 [NIL_VAL] 1"
  let ?ch = "\<lparr>code = [25, 0, 2, 0, 0, 0], lines = [7, 7, 7, 7, 7, 7], constants = [OBJ_VAL 2]\<rparr>"
  have cf: "current_frame ?vm = Some \<lparr>closure = 1, ip = 1, slots = 0\<rparr>"
    by (simp add: script_vm_def current_frame_def)
  have ch: "frame_chunk ?vm \<lparr>closure = 1, ip = 1, slots = 0\<rparr> = Some ?ch"
    by (simp add: script_vm_def frame_chunk_def closure_at_def function_at_def obj_at_def)
  have len: "ip \<lparr>closure = 1, ip = 1, slots = 0\<rparr> + 2 \<le> length (code ?ch)"
    by simp
  have off: "2 = 256 * unat (code ?ch ! ip \<lparr>closure = 1, ip = 1, slots = 0\<rparr>)
                 + unat (code ?ch ! (ip \<lparr>closure = 1, ip = 1, slots = 0\<rparr> + 1))"
    by simp
  have pk: "peek 0 ?vm = Some NIL_VAL"
    by (simp add: script_vm_def peek_def stack_index_def)
  from C8_jump_offsets [OF cf ch len off] pk show ?thesis
    by (simp add: isFalsey_def eval_nat_numeral)
qed

text \<open>
  C8 as stated fails: the operand bytes \<open>0x01, 0x02\<close> decode to \<open>0x0102 = 258\<close>, whereas a
  little-endian byte pair would give \<open>0x0201 = 513\<close>.
\<close>

theorem C8_little_endian_counterexample:
  "map_option fst (READ_SHORT (script_vm [25, 1, 2] 1 [] 0)) = Some 258
   \<and> map_option fst (READ_SHORT (script_vm [25, 1, 2] 1 [] 0)) \<noteq> Some (little_endian_short 1 2)"
  by (simp add: READ_SHORT_def script_vm_def current_frame_def frame_chunk_def closure_at_def
      function_at_def obj_at_def little_endian_short_def)

section \<open>Runtime errors and the call protocol\<close>

lemma stack_trace_lines:
  "length ls = n \<Longrightarrow> \<forall>i<n. trace_line vm i = Some (ls ! i) \<Longrightarrow>
   stack_trace vm n = Some (concat (rev ls))"
proof (induction n arbitrary: ls)
  case 0
  then show ?case by simp
next
  case (Suc n)
  from Suc.prems(1) obtain ks l where ls: "ls = ks @ [l]" and ks: "length ks = n"
    by (cases ls rule: rev_cases) auto
  from Suc.prems(2) ls ks have l: "trace_line vm n = Some l"
    by (auto simp: nth_append)
  from Suc.prems(2) ls ks have "\<forall>i<n. trace_line vm i = Some (ks ! i)"
    by (auto simp: nth_append less_Suc_eq split: if_splits)
  with Suc.IH ks have "stack_trace vm n = Some (concat (rev ks))"
    by blast
  with l ls show ?case by simp
qed

lemma runtimeError_trace:
  "stack_trace vm (frameCount vm) = Some trace \<Longrightarrow>
   runtimeError msg vm = Some (resetStack (vm\<lparr>err := err vm @ msg @ newline @ trace\<rparr>))"
  by (simp add: runtimeError_def)

lemma call_arity_mismatch:
  assumes "closure_at vm cl = Some c" and "function_at vm (func c) = Some f"
    and "argCount \<noteq> arity f" and "stack_trace vm (frameCount vm) = Some trace"
  shows "call cl argCount vm =
           Some (False, resetStack (vm\<lparr>err := err vm @ ''Expected '' @ show_int (arity f)
                   @ '' arguments but got '' @ show_int argCount @ ''.'' @ newline @ trace\<rparr>))"
  using assms by (simp add: call_def runtimeError_def)

lemma call_stack_overflow:
  assumes "closure_at vm cl = Some c" and "function_at vm (func c) = Some f"
    and "argCount = arity f" and "frameCount vm = FRAMES_MAX"
    and "stack_trace vm (frameCount vm) = Some trace"
  shows "call cl argCount vm =
           Some (False, resetStack (vm\<lparr>err := err vm @ ''Stack overflow.'' @ newline @ trace\<rparr>))"
  using assms by (simp add: call_def runtimeError_def)

lemma call_pushes_frame:
  assumes "closure_at vm cl = Some c" and "function_at vm (func c) = Some f"
    and "argCount = arity f" and "frameCount vm \<noteq> FRAMES_MAX"
  shows "call cl argCount vm = None \<or> (\<exists>vm'. call cl argCount vm = Some (True, vm') \<and> err vm' = err vm)"
  using assms by (auto simp: call_def Let_def)

lemma runtimeError_resets:
  "runtimeError msg vm = Some vm' \<Longrightarrow>
   stackTop vm' = 0 \<and> frameCount vm' = 0 \<and> openUpvalues vm' = None"
  by (auto simp: runtimeError_def resetStack_def split: Option.bind_splits)

text \<open>
  C9. In \<open>call\<close> the arity check precedes the frame-capacity check: a call with
  \<open>argCount \<noteq> arity\<close> reports "Expected N arguments but got M." whatever the frame depth, in
  particular when the frame stack is already at \<open>FRAMES_MAX\<close>; "Stack overflow." is reported
  for a call of correct arity at full frame depth, and only for such a call.
\<close>

theorem C9_arity_check_before_overflow:
  assumes cl: "closure_at vm cl = Some c" and f: "function_at vm (func c) = Some f"
    and tr: "stack_trace vm (frameCount vm) = Some trace"
  shows "(argCount \<noteq> arity f \<longrightarrow>
            call cl argCount vm =
              Some (False, resetStack (vm\<lparr>err := err vm @ ''Expected '' @ show_int (arity f)
                @ '' arguments but got '' @ show_int argCount @ ''.'' @ newline @ trace\<rparr>)))
       \<and> (argCount = arity f \<and> frameCount vm = FRAMES_MAX \<longrightarrow>
            call cl argCount vm =
              Some (False, resetStack (vm\<lparr>err := err vm @ ''Stack overflow.'' @ newline @ trace\<rparr>)))
       \<and> (\<forall>vm'. call cl argCount vm = Some (False, vm')
              \<and> err vm' = err vm @ ''Stack overflow.'' @ newline @ trace \<longrightarrow>
            argCount = arity f \<and> frameCount vm = FRAMES_MAX)"
proof (intro conjI impI allI)
  assume "argCount \<noteq> arity f"
  then show "call cl argCount vm =
      Some (False, resetStack (vm\<lparr>err := err vm @ ''Expected '' @ show_int (arity f)
        @ '' arguments but got '' @ show_int argCount @ ''.'' @ newline @ trace\<rparr>))"
    by (rule call_arity_mismatch [OF cl f _ tr])
next
  assume "argCount = arity f \<and> frameCount vm = FRAMES_MAX"
  then show "call cl argCount vm =
      Some (False, resetStack (vm\<lparr>err := err vm @ ''Stack overflow.'' @ newline @ trace\<rparr>))"
    using call_stack_overflow [OF cl f _ _ tr] by blast
next
  fix vm'
  assume a: "call cl argCount vm = Some (False, vm')
      \<and> err vm' = err vm @ ''Stack overflow.'' @ newline @ trace"
  show "argCount = arity f"
  proof (rule ccontr)
    assume "argCount \<noteq> arity f"
    from call_arity_mismatch [OF cl f this tr] a show False
      by (simp add: resetStack_def)
  qed
  show "frameCount vm = FRAMES_MAX"
  proof (rule ccontr)
    assume n: "frameCount vm \<noteq> FRAMES_MAX"
    from call_pushes_frame [OF cl f \<open>argCount = arity f\<close> n] a show False
      by auto
  qed
qed


lemma deep_vm_trace:
  "stack_trace deep_vm (frameCount deep_vm)
     = Some (concat (rev (replicate 64 (''[line 3] in f()'' @ newline))))"
proof (rule stack_trace_lines)
  show "length (replicate 64 (''[line 3] in f()'' @ newline)) = frameCount deep_vm"
    by (simp add: deep_vm_def)
  show "\<forall>i<frameCount deep_vm. trace_line deep_vm i
          = Some (replicate 64 (''[line 3] in f()'' @ newline) ! i)"
    by (simp add: deep_vm_def trace_line_def closure_at_def function_at_def string_at_def
        obj_at_def show_int_def show_nat.simps)
qed

theorem C9_arity_check_before_overflow_witness:
  "frameCount deep_vm = FRAMES_MAX
   \<and> call 1 2 deep_vm =
       Some (False, resetStack (deep_vm\<lparr>err := err deep_vm @ ''Expected 1 arguments but got 2.''
         @ newline @ concat (rev (replicate 64 (''[line 3] in f()'' @ newline)))\<rparr>))
   \<and> call 1 1 deep_vm =
       Some (False, resetStack (deep_vm\<lparr>err := err deep_vm @ ''Stack overflow.''
         @ newline @ concat (rev (replicate 64 (''[line 3] in f()'' @ newline)))\<rparr>))"
proof -
  let ?f = "\<lparr>arity = 1, fn_upvalueCount = 0,
             chunk = \<lparr>code = [1, 1], lines = [3, 3], constants = []\<rparr>, fn_name = Some 2\<rparr>"
  have cl: "closure_at deep_vm 1 = Some \<lparr>func = 0, upvalues = []\<rparr>"
    by (simp add: deep_vm_def closure_at_def obj_at_def)
  have f: "function_at deep_vm (func \<lparr>func = 0, upvalues = []\<rparr>) = Some ?f"
    by (simp add: deep_vm_def function_at_def obj_at_def)
  have full: "frameCount deep_vm = FRAMES_MAX"
    by (simp add: deep_vm_def FRAMES_MAX_def)
  from C9_arity_check_before_overflow [OF cl f deep_vm_trace, of 2]
    C9_arity_check_before_overflow [OF cl f deep_vm_trace, of 1] full
  show ?thesis
    by (simp add: show_int_def show_nat.simps)
qed


text \<open>
  C6. A call of a closure with \<open>argCount \<noteq> arity\<close> is a runtime error (\<open>call\<close> and
  \<open>callValue\<close> return false, \<open>OP_CALL\<close> returns \<open>INTERPRET_RUNTIME_ERROR\<close>). Every runtime
  error writes its message, then one trace line per live frame, the innermost frame first
  (\<open>ls ! i\<close> is the line of frame \<open>i\<close>), and then resets the value stack, the frame stack
  and the open-upvalue list: after it both stacks are empty.
\<close>

theorem C6_runtime_error_resets:
  assumes cl: "closure_at vm cl = Some c" and f: "function_at vm (func c) = Some f"
    and ar: "argCount \<noteq> arity f"
    and len: "length ls = frameCount vm"
    and ls: "\<forall>i<frameCount vm. trace_line vm i = Some (ls ! i)"
  shows "call cl argCount vm =
           Some (False, resetStack (vm\<lparr>err := err vm @ ''Expected '' @ show_int (arity f)
             @ '' arguments but got '' @ show_int argCount @ ''.'' @ newline
             @ concat (rev ls)\<rparr>))
       \<and> callValue (OBJ_VAL cl) argCount vm = call cl argCount vm
       \<and> (\<forall>vm0 b. READ_BYTE vm0 = Some (b, vm) \<and> uint b = argCount
              \<and> peek (uint b) vm = Some (OBJ_VAL cl) \<longrightarrow>
            (\<exists>vm'. op_call vm0 = Some (RETURN INTERPRET_RUNTIME_ERROR, vm')
               \<and> call cl argCount vm = Some (False, vm')))
       \<and> (\<forall>msg. runtimeError msg vm =
            Some (resetStack (vm\<lparr>err := err vm @ msg @ newline @ concat (rev ls)\<rparr>)))
       \<and> (\<forall>msg s s'. runtimeError msg s = Some s' \<longrightarrow>
            stackTop s' = 0 \<and> frameCount s' = 0 \<and> openUpvalues s' = None)"
proof -
  have tr: "stack_trace vm (frameCount vm) = Some (concat (rev ls))"
    using len ls by (rule stack_trace_lines)
  have c1: "call cl argCount vm =
           Some (False, resetStack (vm\<lparr>err := err vm @ ''Expected '' @ show_int (arity f)
             @ '' arguments but got '' @ show_int argCount @ ''.'' @ newline
             @ concat (rev ls)\<rparr>))"
    by (rule call_arity_mismatch [OF cl f ar tr])
  have c2: "callValue (OBJ_VAL cl) argCount vm = call cl argCount vm"
    using cl by (auto simp: callValue_def closure_at_def split: option.splits Obj.splits)
  have c3: "\<forall>vm0 b. READ_BYTE vm0 = Some (b, vm) \<and> uint b = argCount
              \<and> peek (uint b) vm = Some (OBJ_VAL cl) \<longrightarrow>
            (\<exists>vm'. op_call vm0 = Some (RETURN INTERPRET_RUNTIME_ERROR, vm')
               \<and> call cl argCount vm = Some (False, vm'))"
    using c1 c2 by (auto simp: op_call_def)
  have c4: "\<forall>msg. runtimeError msg vm =
            Some (resetStack (vm\<lparr>err := err vm @ msg @ newline @ concat (rev ls)\<rparr>))"
    using tr by (simp add: runtimeError_trace)
  have c5: "\<forall>msg s s'. runtimeError msg s = Some s' \<longrightarrow>
            stackTop s' = 0 \<and> frameCount s' = 0 \<and> openUpvalues s' = None"
    using runtimeError_resets by blast
  from c1 c2 c3 c4 c5 show ?thesis by blast
qed

theorem C6_runtime_error_resets_witness:
  "call 3 1 two_frame_vm =
     Some (False, resetStack (two_frame_vm\<lparr>err := ''Expected 2 arguments but got 1.'' @ newline
       @ ''[line 9] in g()'' @ newline @ ''[line 1] in script'' @ newline\<rparr>))
   \<and> stackTop (resetStack two_frame_vm) = 0 \<and> frameCount (resetStack two_frame_vm) = 0"
proof -
  let ?f = "\<lparr>arity = 2, fn_upvalueCount = 0,
             chunk = \<lparr>code = [28, 1, 33], lines = [9, 9, 9], constants = []\<rparr>, fn_name = Some 4\<rparr>"
  let ?ls = "[''[line 1] in script'' @ newline, ''[line 9] in g()'' @ newline]"
  have cl: "closure_at two_frame_vm 3 = Some \<lparr>func = 2, upvalues = []\<rparr>"
    by (simp add: two_frame_vm_def closure_at_def obj_at_def)
  have f: "function_at two_frame_vm (func \<lparr>func = 2, upvalues = []\<rparr>) = Some ?f"
    by (simp add: two_frame_vm_def function_at_def obj_at_def)
  have ar: "(1 :: int) \<noteq> arity ?f"
    by simp
  have len: "length ?ls = frameCount two_frame_vm"
    by (simp add: two_frame_vm_def)
  have ls: "\<forall>i<frameCount two_frame_vm. trace_line two_frame_vm i = Some (?ls ! i)"
    by (simp add: two_frame_vm_def trace_line_def closure_at_def function_at_def string_at_def
        obj_at_def show_int_def show_nat.simps less_Suc_eq eval_nat_numeral)
  from C6_runtime_error_resets [OF cl f ar len ls] show ?thesis
    by (simp add: show_int_def show_nat.simps resetStack_def two_frame_vm_def)
qed

section \<open>Addition and concatenation\<close>

lemma bit_length_numeral [simp]:
  "bit_length 0 = 0"
  "bit_length (Suc 0) = 1"
  "bit_length (numeral Num.One) = 1"
  "bit_length (numeral (Num.Bit0 n)) = Suc (bit_length (numeral n))"
  "bit_length (numeral (Num.Bit1 n)) = Suc (bit_length (numeral n))"
  by (subst bit_length.simps, simp add: bit_length.simps numeral_Bit0_div_2 numeral_Bit1_div_2)+














section \<open>Global assignment\<close>

text \<open>
  C4. \<open>OP_SET_GLOBAL\<close> with a name that is not in the globals table is a runtime error
  ("Undefined variable"), and the entry that the failed \<open>tableSet\<close> created is deleted
  before the error is reported: the globals table after the error is the table before the
  instruction. With a name that is in the table the entry is updated to the value on top of
  the stack, and the value stays on the stack.
\<close>

theorem C4_op_set_global:
  assumes cf: "current_frame vm = Some frame" and ch: "frame_chunk vm frame = Some ch"
    and ip: "ip frame < length (code ch)"
    and k: "unat (code ch ! ip frame) < length (constants ch)"
    and name: "constants ch ! unat (code ch ! ip frame) = OBJ_VAL name"
    and chars: "string_at vm name = Some chars"
    and top: "0 < stackTop vm" "stackTop vm \<le> length (stack vm)"
    and v: "stack vm ! (stackTop vm - 1) = v"
  shows "(globals vm name = None \<longrightarrow>
           (\<forall>trace. stack_trace (set_ip (ip frame + 1) vm) (frameCount vm) = Some trace \<longrightarrow>
              op_set_global vm =
                Some (RETURN INTERPRET_RUNTIME_ERROR,
                      resetStack ((set_ip (ip frame + 1) vm)
                        \<lparr>err := err vm @ ''Undefined variable '' @ [CHR 0x27] @ chars @ [CHR 0x27]
                                @ ''.'' @ newline @ trace\<rparr>))
              \<and> (\<forall>vm'. op_set_global vm = Some (RETURN INTERPRET_RUNTIME_ERROR, vm') \<longrightarrow>
                    globals vm' = globals vm)))
       \<and> (globals vm name \<noteq> None \<longrightarrow>
            op_set_global vm =
              Some (DISPATCH, (set_ip (ip frame + 1) vm)\<lparr>globals := (globals vm)(name \<mapsto> v)\<rparr>)
            \<and> peek 0 ((set_ip (ip frame + 1) vm)\<lparr>globals := (globals vm)(name \<mapsto> v)\<rparr>) = Some v
            \<and> stackTop ((set_ip (ip frame + 1) vm)\<lparr>globals := (globals vm)(name \<mapsto> v)\<rparr>)
                = stackTop vm)"
proof -
  let ?vm1 = "set_ip (ip frame + 1) vm"
  have rs: "READ_STRING vm = Some (name, ?vm1)"
    by (rule READ_STRING_eq [OF cf ch ip k name chars])
  have pk: "peek 0 ?vm1 = Some v"
    using top v by (simp add: peek_0)
  have del: "globals vm name = None \<Longrightarrow> ((globals vm)(name \<mapsto> v))(name := None) = globals vm"
    by (simp add: fun_upd_idem)
  show ?thesis
  proof (intro conjI impI allI)
    fix trace
    assume n: "globals vm name = None"
      and tr: "stack_trace ?vm1 (frameCount vm) = Some trace"
    show e: "op_set_global vm =
                Some (RETURN INTERPRET_RUNTIME_ERROR,
                      resetStack (?vm1
                        \<lparr>err := err vm @ ''Undefined variable '' @ [CHR 0x27] @ chars @ [CHR 0x27]
                                @ ''.'' @ newline @ trace\<rparr>))"
    proof -
      have re: "runtimeError (''Undefined variable '' @ [CHR 0x27] @ chars @ [CHR 0x27] @ ''.'') ?vm1
          = Some (resetStack (?vm1\<lparr>err := err ?vm1 @ (''Undefined variable '' @ [CHR 0x27] @ chars
                @ [CHR 0x27] @ ''.'') @ newline @ trace\<rparr>))"
        using tr by (intro runtimeError_trace) simp
      have ch1: "string_at ?vm1 name = Some chars"
        using chars by simp
      have "op_set_global vm =
              do { chars \<leftarrow> string_at ?vm1 name;
                   vm4 \<leftarrow> runtimeError (''Undefined variable '' @ [CHR 0x27] @ chars @ [CHR 0x27] @ ''.'') ?vm1;
                   Some (RETURN INTERPRET_RUNTIME_ERROR, vm4) }"
        using n pk
        by (simp add: op_set_global_def rs tableSet_def tableDelete_def fun_upd_idem Let_def
            set_ip_globals_same)
      also have "\<dots> = Some (RETURN INTERPRET_RUNTIME_ERROR,
                      resetStack (?vm1
                        \<lparr>err := err vm @ ''Undefined variable '' @ [CHR 0x27] @ chars @ [CHR 0x27]
                                @ ''.'' @ newline @ trace\<rparr>))"
        using ch1 re by simp
      finally show ?thesis .
    qed
    fix vm'
    assume "op_set_global vm = Some (RETURN INTERPRET_RUNTIME_ERROR, vm')"
    with e show "globals vm' = globals vm"
      by (simp add: resetStack_def)
  next
    assume "globals vm name \<noteq> None"
    then obtain y where "globals vm name = Some y"
      by auto
    then show "op_set_global vm =
              Some (DISPATCH, ?vm1\<lparr>globals := (globals vm)(name \<mapsto> v)\<rparr>)"
      using pk by (simp add: op_set_global_def rs tableSet_def Let_def)
  next
    show "peek 0 (?vm1\<lparr>globals := (globals vm)(name \<mapsto> v)\<rparr>) = Some v"
      using pk by (simp add: peek_def stack_index_def)
  next
    show "stackTop (?vm1\<lparr>globals := (globals vm)(name \<mapsto> v)\<rparr>) = stackTop vm"
      by simp
  qed
qed


theorem C4_op_set_global_witness:
  "op_set_global (script_vm [15, 0] 1 [OBJ_VAL 1, NUMBER_VAL 7] 2)
     = Some (RETURN INTERPRET_RUNTIME_ERROR,
             resetStack ((set_ip 2 (script_vm [15, 0] 1 [OBJ_VAL 1, NUMBER_VAL 7] 2))
               \<lparr>err := ''Undefined variable '' @ [CHR 0x27] @ ''init'' @ [CHR 0x27] @ ''.'' @ newline
                       @ ''[line 7] in script'' @ newline\<rparr>))
   \<and> globals (resetStack ((set_ip 2 (script_vm [15, 0] 1 [OBJ_VAL 1, NUMBER_VAL 7] 2))
               \<lparr>err := ''Undefined variable '' @ [CHR 0x27] @ ''init'' @ [CHR 0x27] @ ''.'' @ newline
                       @ ''[line 7] in script'' @ newline\<rparr>)) = Map.empty
   \<and> op_set_global ((script_vm [15, 0] 1 [OBJ_VAL 1, NUMBER_VAL 7] 2)\<lparr>globals := [2 \<mapsto> NIL_VAL]\<rparr>)
     = Some (DISPATCH,
             (set_ip 2 ((script_vm [15, 0] 1 [OBJ_VAL 1, NUMBER_VAL 7] 2)\<lparr>globals := [2 \<mapsto> NIL_VAL]\<rparr>))
               \<lparr>globals := [2 \<mapsto> NUMBER_VAL 7]\<rparr>)"
proof -
  let ?u = "script_vm [15, 0] 1 [OBJ_VAL 1, NUMBER_VAL 7] 2"
  let ?d = "?u\<lparr>globals := [2 \<mapsto> NIL_VAL]\<rparr>"
  let ?fr = "\<lparr>closure = 1, ip = 1, slots = 0\<rparr>"
  let ?ch = "\<lparr>code = [15, 0], lines = [7, 7], constants = [OBJ_VAL 2]\<rparr>"
  have u: "current_frame ?u = Some ?fr" "frame_chunk ?u ?fr = Some ?ch"
    "ip ?fr < length (code ?ch)" "unat (code ?ch ! ip ?fr) < length (constants ?ch)"
    "constants ?ch ! unat (code ?ch ! ip ?fr) = OBJ_VAL 2" "string_at ?u 2 = Some ''init''"
    "0 < stackTop ?u" "stackTop ?u \<le> length (stack ?u)"
    "stack ?u ! (stackTop ?u - 1) = NUMBER_VAL 7"
    by (simp_all add: script_vm_def current_frame_def frame_chunk_def closure_at_def
        function_at_def string_at_def obj_at_def)
  have d: "current_frame ?d = Some ?fr" "frame_chunk ?d ?fr = Some ?ch"
    "ip ?fr < length (code ?ch)" "unat (code ?ch ! ip ?fr) < length (constants ?ch)"
    "constants ?ch ! unat (code ?ch ! ip ?fr) = OBJ_VAL 2" "string_at ?d 2 = Some ''init''"
    "0 < stackTop ?d" "stackTop ?d \<le> length (stack ?d)"
    "stack ?d ! (stackTop ?d - 1) = NUMBER_VAL 7"
    by (simp_all add: script_vm_def current_frame_def frame_chunk_def closure_at_def
        function_at_def string_at_def obj_at_def)
  have g: "globals ?u = Map.empty" "globals ?u 2 = None" "globals ?d 2 \<noteq> None"
    "globals ?d = [2 \<mapsto> NIL_VAL]" "err ?u = []"
    by (simp_all add: script_vm_def)
  have tr: "stack_trace (set_ip (ip ?fr + 1) ?u) (frameCount ?u)
              = Some (''[line 7] in script'' @ newline)"
    by (simp add: script_vm_def set_ip_def trace_line_def closure_at_def function_at_def
        obj_at_def show_int_def show_nat.simps)
  have c1: "op_set_global ?u
     = Some (RETURN INTERPRET_RUNTIME_ERROR,
             resetStack ((set_ip 2 ?u)
               \<lparr>err := ''Undefined variable '' @ [CHR 0x27] @ ''init'' @ [CHR 0x27] @ ''.'' @ newline
                       @ ''[line 7] in script'' @ newline\<rparr>))"
    using C4_op_set_global [OF u] g(2,5) tr by (simp add: eval_nat_numeral)
  have c2: "globals (resetStack ((set_ip 2 ?u)
               \<lparr>err := ''Undefined variable '' @ [CHR 0x27] @ ''init'' @ [CHR 0x27] @ ''.'' @ newline
                       @ ''[line 7] in script'' @ newline\<rparr>)) = Map.empty"
    using g(1) by (simp add: resetStack_def)
  have c3: "op_set_global ?d = Some (DISPATCH, (set_ip 2 ?d)\<lparr>globals := [2 \<mapsto> NUMBER_VAL 7]\<rparr>)"
    using C4_op_set_global [OF d] g(3,4) by (simp add: eval_nat_numeral)
  from c1 c2 c3 show ?thesis by blast
qed

section \<open>Upvalue access\<close>

lemma upvalue_at_set_ip_fun: "upvalue_at (set_ip i vm) = upvalue_at vm"
  by (rule ext) simp

lemma frame_upvalue_set_ip:
  assumes "current_frame vm = Some frame"
  shows "frame_upvalue (set_ip i vm) slot = frame_upvalue vm slot"
  unfolding frame_upvalue_def current_frame_set_ip [OF assms] upvalue_at_set_ip_fun
  using assms by simp

lemma deref_set_ip [simp]: "deref (set_ip i vm) p = deref vm p"
  by (simp add: deref_def split: ValuePtr.splits)


text \<open>
  C10 (amended). \<open>OP_GET_UPVALUE\<close> pushes one value, the current target of the upvalue's
  location. \<open>OP_SET_UPVALUE\<close> writes the value on top of the stack through the upvalue's
  location without popping: \<open>stackTop\<close> is unchanged and the assigned value stays on top.
  When the upvalue is open the write goes to the captured stack slot \<open>k\<close>, so the contents
  of the value stack change there; when it is closed the write goes to the upvalue object
  and the value stack is unchanged.
\<close>

theorem C10_upvalue_access:
  assumes cf: "current_frame vm = Some frame" and ch: "frame_chunk vm frame = Some ch"
    and ip: "ip frame < length (code ch)"
    and u: "frame_upvalue vm (code ch ! ip frame) = Some u"
  shows "(\<forall>v. deref vm (location u) = Some v \<and> stackTop vm < length (stack vm) \<longrightarrow>
            op_get_upvalue vm =
              Some (DISPATCH, (set_ip (ip frame + 1) vm)
                      \<lparr>stack := (stack vm)[stackTop vm := v], stackTop := stackTop vm + 1\<rparr>))
       \<and> (\<forall>v. 0 < stackTop vm \<and> stackTop vm \<le> length (stack vm)
              \<and> stack vm ! (stackTop vm - 1) = v \<longrightarrow>
            (\<forall>k. location u = StackPtr k \<and> k < length (stack vm) \<longrightarrow>
               op_set_upvalue vm =
                 Some (DISPATCH, (set_ip (ip frame + 1) vm)\<lparr>stack := (stack vm)[k := v]\<rparr>)
               \<and> (stack vm)[k := v] ! (stackTop vm - 1) = v)
            \<and> (\<forall>b ub. location u = ClosedPtr b \<and> upvalue_at vm b = Some ub \<longrightarrow>
               op_set_upvalue vm =
                 Some (DISPATCH, (set_ip (ip frame + 1) vm)
                         \<lparr>heap := (heap vm)[b := UpvalueObj (ub\<lparr>closed := v\<rparr>)]\<rparr>)))"
proof -
  let ?vm1 = "set_ip (ip frame + 1) vm"
  have rb: "READ_BYTE vm = Some (code ch ! ip frame, ?vm1)"
    by (rule READ_BYTE_eq [OF cf ch ip])
  have u1: "frame_upvalue ?vm1 (code ch ! ip frame) = Some u"
    using u by (simp add: frame_upvalue_set_ip [OF cf])
  show ?thesis
  proof (intro conjI allI impI, goal_cases)
    case (1 v)
    then have "deref ?vm1 (location u) = Some v" "stackTop ?vm1 < length (stack ?vm1)"
      by simp_all
    then show ?case
      using u1 by (simp add: op_get_upvalue_def rb push_eq)
  next
    case (2 v k)
    then have pk: "peek 0 ?vm1 = Some v"
      by (simp add: peek_0)
    from 2 have "store (location u) v ?vm1 = Some (?vm1\<lparr>stack := (stack vm)[k := v]\<rparr>)"
      by (simp add: store_def)
    then show ?case
      using u1 pk by (simp add: op_set_upvalue_def rb)
  next
    case (3 v k)
    then show ?case
      by (cases "k = stackTop vm - 1") simp_all
  next
    case (4 v b ub)
    then have pk: "peek 0 ?vm1 = Some v"
      by (simp add: peek_0)
    from 4 have b: "b < length (heap vm)"
      by (auto simp: upvalue_at_def obj_at_def split: if_splits)
    from 4 b have "store (location u) v ?vm1
        = Some (?vm1\<lparr>heap := (heap vm)[b := UpvalueObj (ub\<lparr>closed := v\<rparr>)]\<rparr>)"
      by (simp add: store_def set_obj_def)
    then show ?case
      using u1 pk by (simp add: op_set_upvalue_def rb)
  qed
qed


lemma upvalue_vm_facts:
  "current_frame (upvalue_vm op) = Some \<lparr>closure = 4, ip = 1, slots = 3\<rparr>"
  "frame_chunk (upvalue_vm op) \<lparr>closure = 4, ip = 1, slots = 3\<rparr>
     = Some \<lparr>code = [op, 0, 10], lines = [1, 1, 1], constants = []\<rparr>"
  "frame_upvalue (upvalue_vm op) 0
     = Some \<lparr>location = StackPtr 1, closed = NIL_VAL, next_upvalue = None\<rparr>"
  "stackTop (upvalue_vm op) = 5"
  "stack (upvalue_vm op) = [OBJ_VAL 1, NUMBER_VAL 1, OBJ_VAL 4, OBJ_VAL 4, NUMBER_VAL 2, NIL_VAL]"
  by (simp_all add: upvalue_vm_def current_frame_def frame_chunk_def frame_upvalue_def
      closure_at_def function_at_def upvalue_at_def obj_at_def)

theorem C10_upvalue_access_witness:
  "op_get_upvalue (upvalue_vm 4)
     = Some (DISPATCH, (set_ip 2 (upvalue_vm 4))
         \<lparr>stack := [OBJ_VAL 1, NUMBER_VAL 1, OBJ_VAL 4, OBJ_VAL 4, NUMBER_VAL 2, NUMBER_VAL 1],
           stackTop := 6\<rparr>)
   \<and> op_set_upvalue (upvalue_vm 5)
     = Some (DISPATCH, (set_ip 2 (upvalue_vm 5))
         \<lparr>stack := [OBJ_VAL 1, NUMBER_VAL 2, OBJ_VAL 4, OBJ_VAL 4, NUMBER_VAL 2, NIL_VAL]\<rparr>)"
proof -
  let ?fr = "\<lparr>closure = 4, ip = 1, slots = 3\<rparr>"
  have ip: "\<And>op. ip ?fr < length (code \<lparr>code = [op, 0, 10], lines = [1, 1, 1], constants = []\<rparr>)"
    by simp
  have u: "\<And>op. frame_upvalue (upvalue_vm op)
             (code \<lparr>code = [op, 0, 10], lines = [1, 1, 1], constants = []\<rparr> ! ip ?fr)
           = Some \<lparr>location = StackPtr 1, closed = NIL_VAL, next_upvalue = None\<rparr>"
    by (simp add: upvalue_vm_facts)
  have d: "deref (upvalue_vm 4) (StackPtr 1) = Some (NUMBER_VAL 1)"
    by (simp add: deref_def upvalue_vm_facts)
  have g: "op_get_upvalue (upvalue_vm 4)
     = Some (DISPATCH, (set_ip 2 (upvalue_vm 4))
         \<lparr>stack := [OBJ_VAL 1, NUMBER_VAL 1, OBJ_VAL 4, OBJ_VAL 4, NUMBER_VAL 2, NUMBER_VAL 1],
           stackTop := 6\<rparr>)"
    using C10_upvalue_access [OF upvalue_vm_facts(1,2) ip u, of 4] d
    by (simp add: upvalue_vm_facts eval_nat_numeral)
  have s: "op_set_upvalue (upvalue_vm 5)
     = Some (DISPATCH, (set_ip 2 (upvalue_vm 5))
         \<lparr>stack := [OBJ_VAL 1, NUMBER_VAL 2, OBJ_VAL 4, OBJ_VAL 4, NUMBER_VAL 2, NIL_VAL]\<rparr>)"
    using C10_upvalue_access [OF upvalue_vm_facts(1,2) ip u, of 5]
    by (simp add: upvalue_vm_facts eval_nat_numeral)
  from g s show ?thesis by blast
qed

text \<open>
  C10 as stated fails: with an open upvalue for slot 1, \<open>OP_SET_UPVALUE\<close> overwrites slot 1 of
  the value stack, so the value stack is not left unchanged.
\<close>

theorem C10_stack_changed_counterexample:
  "map_option (stack \<circ> snd) (op_set_upvalue (upvalue_vm 5))
     = Some [OBJ_VAL 1, NUMBER_VAL 2, OBJ_VAL 4, OBJ_VAL 4, NUMBER_VAL 2, NIL_VAL]
   \<and> map_option (stack \<circ> snd) (op_set_upvalue (upvalue_vm 5)) \<noteq> Some (stack (upvalue_vm 5))"
  by (simp add: op_set_upvalue_def READ_BYTE_def frame_upvalue_def current_frame_def
      frame_chunk_def closure_at_def function_at_def upvalue_at_def obj_at_def peek_def
      stack_index_def store_def set_ip_def upvalue_vm_def)

section \<open>Calling a class\<close>

lemma obj_at_extend:
  "obj_at vm a = Some ob \<Longrightarrow> heap vm' = heap vm @ xs \<Longrightarrow> obj_at vm' a = Some ob"
  by (auto simp: obj_at_def nth_append split: if_splits)

lemma objs_at_extend:
  assumes "heap vm' = heap vm @ xs"
  shows "closure_at vm a = Some c \<Longrightarrow> closure_at vm' a = Some c"
    and "function_at vm a = Some f \<Longrightarrow> function_at vm' a = Some f"
    and "string_at vm a = Some s \<Longrightarrow> string_at vm' a = Some s"
    and "class_at vm a = Some k \<Longrightarrow> class_at vm' a = Some k"
    and "upvalue_at vm a = Some u \<Longrightarrow> upvalue_at vm' a = Some u"
  using assms
  by (auto simp: closure_at_def function_at_def string_at_def class_at_def upvalue_at_def
      obj_at_def nth_append split: if_splits option.splits Obj.splits)

lemma trace_line_extend:
  assumes "trace_line vm i = Some l" and "frames vm' = frames vm" and "heap vm' = heap vm @ xs"
  shows "trace_line vm' i = Some l"
proof -
  from assms(1) obtain c f where i: "i < length (frames vm)"
    and c: "closure_at vm (closure (frames vm ! i)) = Some c"
    and f: "function_at vm (func c) = Some f"
    by (auto simp: trace_line_def Let_def split: if_splits Option.bind_splits)
  note c' = objs_at_extend(1) [OF assms(3) c] and f' = objs_at_extend(2) [OF assms(3) f]
  show ?thesis
  proof (cases "fn_name f")
    case None
    with assms(1,2) i c f c' f' show ?thesis
      by (simp add: trace_line_def Let_def split: if_splits)
  next
    case (Some n)
    with assms(1) i c f obtain s where s: "string_at vm n = Some s"
      by (auto simp: trace_line_def Let_def split: if_splits Option.bind_splits)
    note s' = objs_at_extend(3) [OF assms(3) s]
    from Some assms(1,2) i c f c' f' s s' show ?thesis
      by (simp add: trace_line_def Let_def split: if_splits)
  qed
qed

lemma stack_trace_extend:
  "stack_trace vm n = Some t \<Longrightarrow> frames vm' = frames vm \<Longrightarrow> heap vm' = heap vm @ xs \<Longrightarrow>
   stack_trace vm' n = Some t"
proof (induction n arbitrary: t)
  case 0
  then show ?case by simp
next
  case (Suc n)
  from Suc.prems(1) obtain l r where l: "trace_line vm n = Some l"
    and r: "stack_trace vm n = Some r" and t: "t = l @ r"
    by (auto split: Option.bind_splits)
  from trace_line_extend [OF l Suc.prems(2,3)] Suc.IH [OF r Suc.prems(2,3)] t
  show ?case by simp
qed


lemma callValue_class:
  assumes "obj_at vm a = Some (ClassObj cls)" and "stack_index vm (- argCount - 1) = Some i"
  shows "callValue (OBJ_VAL a) argCount vm =
     (let vm2 = vm\<lparr>heap := heap vm @ [InstanceObj \<lparr>klass = a, inst_fields = Map.empty\<rparr>],
                    stack := (stack vm)[i := OBJ_VAL (length (heap vm))]\<rparr>
      in case methods cls (initString vm) of
           Some initializer \<Rightarrow> do { c \<leftarrow> AS_OBJ initializer; call c argCount vm2 }
         | None \<Rightarrow>
             if argCount \<noteq> 0 then
               do {
                 vm3 \<leftarrow> runtimeError (''Expected 0 arguments but got '' @ show_int argCount @ ''.'') vm2;
                 Some (False, vm3)
               }
             else Some (True, vm2))"
  using assms
  by (cases "methods cls (initString vm)")
     (simp_all add: callValue_def newInstance_def allocateObject_def tableGet_def Let_def)

text \<open>
  C5. Calling a class (the object at address \<open>a\<close>) with \<open>argCount\<close> arguments overwrites
  the callee's slot \<open>stackTop[-argCount - 1]\<close> with a new instance of that class (a new
  address, class \<open>a\<close>, no fields); \<open>vm2\<close> is the state after that. If the method table has
  an entry for \<open>vm.initString\<close>, that closure is called with the same \<open>argCount\<close> (and, when
  the arity matches and a frame is free, its frame starts at the instance's slot);
  otherwise the call succeeds when \<open>argCount\<close> is 0 and is a runtime error when it is not.
\<close>

theorem C5_call_class:
  assumes cls: "obj_at vm a = Some (ClassObj cls)"
    and i: "stack_index vm (- argCount - 1) = Some i"
    and vm2: "vm2 = vm\<lparr>heap := heap vm @ [InstanceObj \<lparr>klass = a, inst_fields = Map.empty\<rparr>],
                        stack := (stack vm)[i := OBJ_VAL (length (heap vm))]\<rparr>"
  shows "obj_at vm (length (heap vm)) = None
       \<and> obj_at vm2 (length (heap vm)) = Some (InstanceObj \<lparr>klass = a, inst_fields = Map.empty\<rparr>)
       \<and> int i = int (stackTop vm) - argCount - 1
       \<and> (\<forall>c. methods cls (initString vm) = Some (OBJ_VAL c) \<longrightarrow>
             callValue (OBJ_VAL a) argCount vm = call c argCount vm2)
       \<and> (\<forall>c cl f. methods cls (initString vm) = Some (OBJ_VAL c)
             \<and> closure_at vm c = Some cl \<and> function_at vm (func cl) = Some f
             \<and> argCount = arity f \<and> frameCount vm \<noteq> FRAMES_MAX
             \<and> frameCount vm < length (frames vm) \<longrightarrow>
             callValue (OBJ_VAL a) argCount vm =
               Some (True, vm2\<lparr>frames := (frames vm)[frameCount vm := \<lparr>closure = c, ip = 0, slots = i\<rparr>],
                              frameCount := frameCount vm + 1\<rparr>))
       \<and> (methods cls (initString vm) = None \<and> argCount = 0 \<longrightarrow>
             callValue (OBJ_VAL a) argCount vm = Some (True, vm2))
       \<and> (\<forall>trace. methods cls (initString vm) = None \<and> argCount \<noteq> 0
             \<and> stack_trace vm (frameCount vm) = Some trace \<longrightarrow>
             callValue (OBJ_VAL a) argCount vm =
               Some (False, resetStack (vm2\<lparr>err := err vm @ ''Expected 0 arguments but got ''
                       @ show_int argCount @ ''.'' @ newline @ trace\<rparr>)))"
proof -
  note cv = callValue_class [OF cls i, folded vm2]
  have h2: "heap vm2 = heap vm @ [InstanceObj \<lparr>klass = a, inst_fields = Map.empty\<rparr>]"
    and f2: "frames vm2 = frames vm" and fc2: "frameCount vm2 = frameCount vm"
    and e2: "err vm2 = err vm"
    and st2: "stackTop vm2 = stackTop vm" "length (stack vm2) = length (stack vm)"
    by (simp_all add: vm2)
  from i have ii: "int i = int (stackTop vm) - argCount - 1"
    and il: "i < length (stack vm)"
    by (auto simp: stack_index_def Let_def split: if_splits)
  have c1: "obj_at vm (length (heap vm)) = None"
    by (simp add: obj_at_def)
  have c2: "obj_at vm2 (length (heap vm)) = Some (InstanceObj \<lparr>klass = a, inst_fields = Map.empty\<rparr>)"
    by (simp add: obj_at_def h2)
  have c4: "\<forall>c. methods cls (initString vm) = Some (OBJ_VAL c) \<longrightarrow>
             callValue (OBJ_VAL a) argCount vm = call c argCount vm2"
    by (simp add: cv AS_OBJ_def)
  have c5: "\<forall>c cl f. methods cls (initString vm) = Some (OBJ_VAL c)
             \<and> closure_at vm c = Some cl \<and> function_at vm (func cl) = Some f
             \<and> argCount = arity f \<and> frameCount vm \<noteq> FRAMES_MAX
             \<and> frameCount vm < length (frames vm) \<longrightarrow>
             callValue (OBJ_VAL a) argCount vm =
               Some (True, vm2\<lparr>frames := (frames vm)[frameCount vm := \<lparr>closure = c, ip = 0, slots = i\<rparr>],
                              frameCount := frameCount vm + 1\<rparr>)"
  proof (intro allI impI, elim conjE)
    fix c cl f
    assume m: "methods cls (initString vm) = Some (OBJ_VAL c)"
      and cl: "closure_at vm c = Some cl" and f: "function_at vm (func cl) = Some f"
      and ar: "argCount = arity f" and nf: "frameCount vm \<noteq> FRAMES_MAX"
      and fl: "frameCount vm < length (frames vm)"
    note cl2 = objs_at_extend(1) [OF h2 cl] and fn2 = objs_at_extend(2) [OF h2 f]
    have "call c argCount vm2 =
        Some (True, vm2\<lparr>frames := (frames vm)[frameCount vm := \<lparr>closure = c, ip = 0, slots = i\<rparr>],
                       frameCount := frameCount vm + 1\<rparr>)"
    proof -
      from ii have ni: "nat (int (stackTop vm) - arity f - 1) = i"
        unfolding ar by linarith
      from ii il have b: "0 \<le> int (stackTop vm) - arity f - 1"
        "int (stackTop vm) - arity f - 1 \<le> int (length (stack vm))"
        unfolding ar by linarith+
      show ?thesis
        using ar nf fl b
        by (simp add: call_def cl2 fn2 f2 fc2 st2 Let_def ni)
    qed
    with c4 m show "callValue (OBJ_VAL a) argCount vm =
        Some (True, vm2\<lparr>frames := (frames vm)[frameCount vm := \<lparr>closure = c, ip = 0, slots = i\<rparr>],
                       frameCount := frameCount vm + 1\<rparr>)"
      by simp
  qed
  have c6: "methods cls (initString vm) = None \<and> argCount = 0 \<longrightarrow>
             callValue (OBJ_VAL a) argCount vm = Some (True, vm2)"
    using cv by (auto simp: Let_def)
  have c7: "\<forall>trace. methods cls (initString vm) = None \<and> argCount \<noteq> 0
             \<and> stack_trace vm (frameCount vm) = Some trace \<longrightarrow>
             callValue (OBJ_VAL a) argCount vm =
               Some (False, resetStack (vm2\<lparr>err := err vm @ ''Expected 0 arguments but got ''
                       @ show_int argCount @ ''.'' @ newline @ trace\<rparr>))"
  proof (intro allI impI, elim conjE)
    fix trace
    assume m: "methods cls (initString vm) = None" and n: "argCount \<noteq> 0"
      and tr: "stack_trace vm (frameCount vm) = Some trace"
    from stack_trace_extend [OF tr f2 h2] have "stack_trace vm2 (frameCount vm2) = Some trace"
      by (simp add: fc2)
    from runtimeError_trace [OF this] m n
    show "callValue (OBJ_VAL a) argCount vm =
               Some (False, resetStack (vm2\<lparr>err := err vm @ ''Expected 0 arguments but got ''
                       @ show_int argCount @ ''.'' @ newline @ trace\<rparr>))"
      by (simp add: cv e2)
  qed
  from c1 c2 ii c4 c5 c6 c7 show ?thesis by blast
qed


lemma class_vm_facts:
  "obj_at (class_vm ms n) 3 = Some (ClassObj \<lparr>class_name = 4, methods = ms\<rparr>)"
  "stack_index (class_vm ms n) (- int n - 1) = Some 1"
  "initString (class_vm ms n) = 2"
  "length (heap (class_vm ms n)) = 7"
  "frameCount (class_vm ms n) = 1"
  "frames (class_vm ms n) = [\<lparr>closure = 1, ip = 2, slots = 0\<rparr>, \<lparr>closure = 1, ip = 0, slots = 0\<rparr>]"
  "err (class_vm ms n) = []"
  "closure_at (class_vm ms n) 6 = Some \<lparr>func = 5, upvalues = []\<rparr>"
  "function_at (class_vm ms n) 5
     = Some \<lparr>arity = 1, fn_upvalueCount = 0,
              chunk = \<lparr>code = [33], lines = [2], constants = []\<rparr>, fn_name = Some 2\<rparr>"
  "stack_trace (class_vm ms n) (frameCount (class_vm ms n)) = Some (''[line 4] in script'' @ newline)"
  by (simp_all add: class_vm_def obj_at_def stack_index_def closure_at_def function_at_def
      trace_line_def show_int_def show_nat.simps)

theorem C5_call_class_witness:
  "callValue (OBJ_VAL 3) 1 (class_vm [2 \<mapsto> OBJ_VAL 6] 1)
     = Some (True, (class_vm [2 \<mapsto> OBJ_VAL 6] 1)
         \<lparr>heap := heap (class_vm [2 \<mapsto> OBJ_VAL 6] 1) @ [InstanceObj \<lparr>klass = 3, inst_fields = Map.empty\<rparr>],
           stack := [OBJ_VAL 1, OBJ_VAL 7, NIL_VAL, NIL_VAL],
           frames := [\<lparr>closure = 1, ip = 2, slots = 0\<rparr>, \<lparr>closure = 6, ip = 0, slots = 1\<rparr>],
           frameCount := 2\<rparr>)
   \<and> callValue (OBJ_VAL 3) 0 (class_vm Map.empty 0)
     = Some (True, (class_vm Map.empty 0)
         \<lparr>heap := heap (class_vm Map.empty 0) @ [InstanceObj \<lparr>klass = 3, inst_fields = Map.empty\<rparr>],
           stack := [OBJ_VAL 1, OBJ_VAL 7, NIL_VAL]\<rparr>)
   \<and> callValue (OBJ_VAL 3) 2 (class_vm Map.empty 2)
     = Some (False, resetStack ((class_vm Map.empty 2)
         \<lparr>heap := heap (class_vm Map.empty 2) @ [InstanceObj \<lparr>klass = 3, inst_fields = Map.empty\<rparr>],
           stack := [OBJ_VAL 1, OBJ_VAL 7, NIL_VAL, NIL_VAL, NIL_VAL],
           err := ''Expected 0 arguments but got 2.'' @ newline @ ''[line 4] in script'' @ newline\<rparr>))"
proof -
  let ?a = "class_vm [2 \<mapsto> OBJ_VAL 6] 1"
  let ?b = "class_vm Map.empty 0"
  let ?c = "class_vm Map.empty 2"
  let ?inst = "[InstanceObj \<lparr>klass = 3, inst_fields = Map.empty\<rparr>]"
  have st: "stack ?a = [OBJ_VAL 1, OBJ_VAL 3, NIL_VAL, NIL_VAL]" "stackTop ?a = 3"
    "stack ?b = [OBJ_VAL 1, OBJ_VAL 3, NIL_VAL]"
    "stack ?c = [OBJ_VAL 1, OBJ_VAL 3, NIL_VAL, NIL_VAL, NIL_VAL]"
    by (simp_all add: class_vm_def eval_nat_numeral)
  have ia: "stack_index ?a (- 1 - 1) = Some 1" "stack_index ?b (- 0 - 1) = Some 1"
    "stack_index ?c (- 2 - 1) = Some 1"
    using class_vm_facts(2) [of "[2 \<mapsto> OBJ_VAL 6]" 1] class_vm_facts(2) [of Map.empty 0]
      class_vm_facts(2) [of Map.empty 2]
    by simp_all
  have fm: "FRAMES_MAX \<noteq> 1" by (simp add: FRAMES_MAX_def)
  have c1: "callValue (OBJ_VAL 3) 1 ?a
     = Some (True, ?a\<lparr>heap := heap ?a @ ?inst,
           stack := [OBJ_VAL 1, OBJ_VAL 7, NIL_VAL, NIL_VAL],
           frames := [\<lparr>closure = 1, ip = 2, slots = 0\<rparr>, \<lparr>closure = 6, ip = 0, slots = 1\<rparr>],
           frameCount := 2\<rparr>)"
  proof -
    let ?cl = "\<lparr>func = 5, upvalues = []\<rparr>"
    let ?f = "\<lparr>arity = 1, fn_upvalueCount = 0,
              chunk = \<lparr>code = [33], lines = [2], constants = []\<rparr>, fn_name = Some 2\<rparr>"
    have p: "methods \<lparr>class_name = 4, methods = [2 \<mapsto> OBJ_VAL 6]\<rparr> (initString ?a) = Some (OBJ_VAL 6)
        \<and> closure_at ?a 6 = Some ?cl \<and> function_at ?a (func ?cl) = Some ?f
        \<and> (1 :: int) = arity ?f \<and> frameCount ?a \<noteq> FRAMES_MAX
        \<and> frameCount ?a < length (frames ?a)"
      using fm by (simp add: class_vm_facts)
    from C5_call_class [OF class_vm_facts(1) ia(1) refl]
    have "\<forall>c cl f. methods \<lparr>class_name = 4, methods = [2 \<mapsto> OBJ_VAL 6]\<rparr> (initString ?a) = Some (OBJ_VAL c)
             \<and> closure_at ?a c = Some cl \<and> function_at ?a (func cl) = Some f
             \<and> 1 = arity f \<and> frameCount ?a \<noteq> FRAMES_MAX
             \<and> frameCount ?a < length (frames ?a) \<longrightarrow>
             callValue (OBJ_VAL 3) 1 ?a =
               Some (True, ?a\<lparr>heap := heap ?a @ ?inst,
                              stack := (stack ?a)[1 := OBJ_VAL (length (heap ?a))],
                              frames := (frames ?a)[frameCount ?a := \<lparr>closure = c, ip = 0, slots = 1\<rparr>],
                              frameCount := frameCount ?a + 1\<rparr>)"
      by blast
    from this [rule_format, OF p] st(1)
    show ?thesis
      by (simp add: class_vm_facts(4,5,6))
  qed
  have c2: "callValue (OBJ_VAL 3) 0 ?b
     = Some (True, ?b\<lparr>heap := heap ?b @ ?inst, stack := [OBJ_VAL 1, OBJ_VAL 7, NIL_VAL]\<rparr>)"
    using C5_call_class [OF class_vm_facts(1) ia(2) refl] st
    by (simp add: class_vm_facts eval_nat_numeral)
  have c3: "callValue (OBJ_VAL 3) 2 ?c
     = Some (False, resetStack (?c\<lparr>heap := heap ?c @ ?inst,
           stack := [OBJ_VAL 1, OBJ_VAL 7, NIL_VAL, NIL_VAL, NIL_VAL],
           err := ''Expected 0 arguments but got 2.'' @ newline @ ''[line 4] in script'' @ newline\<rparr>))"
    using C5_call_class [OF class_vm_facts(1) ia(3) refl] class_vm_facts(10) [of Map.empty 2] st
    by (simp add: class_vm_facts(3,4,5,6,7) show_int_def show_nat.simps eval_nat_numeral)
  from c1 c2 c3 show ?thesis by blast
qed

section \<open>Inheritance and method definition\<close>






















section \<open>The open-upvalue list\<close>

lemma open_list_first: "open_list vm p us \<Longrightarrow> p = first_node us"
  by (cases us) auto

lemma open_list_node:
  "open_list vm p us \<Longrightarrow> (a, k) \<in> set us \<Longrightarrow>
   \<exists>u. upvalue_at vm a = Some u \<and> location u = StackPtr k"
  by (induction us arbitrary: p) (auto split: option.splits)

lemma open_list_cong:
  "open_list vm p us \<Longrightarrow> \<forall>(a, k) \<in> set us. upvalue_at vm' a = upvalue_at vm a \<Longrightarrow>
   open_list vm' p us"
  by (induction us arbitrary: p) (auto split: option.splits)

lemma sorted_slots_distinct:
  assumes "open_list vm p us" and "sorted_wrt (\<lambda>k k'. k > k') (map snd us)"
  shows "distinct (map fst us)"
  using assms
proof (induction us arbitrary: p)
  case Nil
  then show ?case by simp
next
  case (Cons x us)
  obtain a k where x: "x = (a, k)" by (cases x)
  from Cons.prems x obtain u where u: "upvalue_at vm a = Some u" "location u = StackPtr k"
    and rest: "open_list vm (next_upvalue u) us"
    by (auto split: option.splits)
  have "a \<notin> fst ` set us"
  proof
    assume "a \<in> fst ` set us"
    then obtain k' where in_us: "(a, k') \<in> set us" by auto
    from open_list_node [OF rest in_us] u have "k' = k" by simp
    moreover from Cons.prems(2) x in_us have "k > k'" by force
    ultimately show False by simp
  qed
  moreover from Cons.IH [OF rest] Cons.prems(2) have "distinct (map fst us)" by simp
  ultimately show ?case by (simp add: x)
qed


lemma sorted_dropWhile_filter:
  "sorted_wrt (\<lambda>k k'. k > k') (map snd (us :: (nat \<times> nat) list)) \<Longrightarrow>
   dropWhile (\<lambda>(a, k). n \<le> k) us = filter (\<lambda>(a, k). k < n) us"
proof (induction us)
  case Nil
  then show ?case by simp
next
  case (Cons x us)
  obtain a k where x: "x = (a, k)" by (cases x)
  show ?case
  proof (cases "n \<le> k")
    case True
    with Cons x show ?thesis by auto
  next
    case False
    with Cons.prems x have "\<forall>(b, k') \<in> set us. k' < n" by force
    then have "filter (\<lambda>(a, k). k < n) us = us"
      by (intro filter_True) auto
    with False x show ?thesis by simp
  qed
qed


section \<open>Closing upvalues\<close>

lemma closeUpvalues_spec:
  assumes "open_list vm (openUpvalues vm) us"
    and "sorted_wrt (\<lambda>k k'. k > k') (map snd us)"
    and "\<forall>(a, k) \<in> set us. n \<le> k \<longrightarrow> k < length (stack vm)"
  shows "\<exists>vm'. closeUpvalues n vm = Some vm'
           \<and> vm' = vm\<lparr>heap := heap vm', openUpvalues := openUpvalues vm'\<rparr>
           \<and> length (heap vm') = length (heap vm)
           \<and> open_list vm' (openUpvalues vm') (dropWhile (\<lambda>(a, k). n \<le> k) us)
           \<and> (\<forall>(a, k) \<in> set (takeWhile (\<lambda>(a, k). n \<le> k) us).
                 \<exists>u. upvalue_at vm a = Some u
                   \<and> upvalue_at vm' a = Some (u\<lparr>closed := stack vm ! k, location := ClosedPtr a\<rparr>))
           \<and> (\<forall>b. b \<notin> fst ` set (takeWhile (\<lambda>(a, k). n \<le> k) us) \<longrightarrow> obj_at vm' b = obj_at vm b)"
  using assms
proof (induction us arbitrary: vm)
  case Nil
  then have "closeUpvalues n vm = Some vm"
    by (simp add: closeUpvalues.simps)
  with Nil show ?case by simp
next
  case (Cons x us)
  obtain a k where x: "x = (a, k)" by (cases x)
  from Cons.prems(1) x obtain u where hd: "openUpvalues vm = Some a"
    and u: "upvalue_at vm a = Some u" and loc: "location u = StackPtr k"
    and rest: "open_list vm (next_upvalue u) us"
    by (auto split: option.splits)
  show ?case
  proof (cases "n \<le> k")
    case False
    then have "closeUpvalues n vm = Some vm"
      by (subst closeUpvalues.simps) (simp add: hd u loc)
    with False Cons.prems(1) x show ?thesis by simp
  next
    case True
    with Cons.prems(3) x have kl: "k < length (stack vm)" by simp
    from u have al: "a < length (heap vm)"
      by (auto simp: upvalue_at_def obj_at_def split: if_splits)
    let ?c = "u\<lparr>closed := stack vm ! k, location := ClosedPtr a\<rparr>"
    let ?vm1 = "vm\<lparr>heap := (heap vm)[a := UpvalueObj ?c], openUpvalues := next_upvalue u\<rparr>"
    have step: "closeUpvalues n vm = closeUpvalues n ?vm1"
      by (subst closeUpvalues.simps) (simp add: hd u loc True kl)
    from sorted_slots_distinct [OF Cons.prems(1,2)] x have an: "a \<notin> fst ` set us"
      by simp
    have same: "\<And>b. b \<noteq> a \<Longrightarrow> obj_at ?vm1 b = obj_at vm b"
      by (simp add: obj_at_def)
    have same_u: "\<And>b. b \<noteq> a \<Longrightarrow> upvalue_at ?vm1 b = upvalue_at vm b"
      by (simp add: upvalue_at_def same)
    have a1: "upvalue_at ?vm1 a = Some ?c"
      using al by (simp add: upvalue_at_def obj_at_def)
    have "\<forall>(b, j) \<in> set us. upvalue_at ?vm1 b = upvalue_at vm b"
    proof (clarify)
      fix b j
      assume "(b, j) \<in> set us"
      with an have "b \<noteq> a" by force
      then show "upvalue_at ?vm1 b = upvalue_at vm b" by (rule same_u)
    qed
    from open_list_cong [OF rest this] have rest1: "open_list ?vm1 (openUpvalues ?vm1) us"
      by simp
    from Cons.prems(2) have sorted1: "sorted_wrt (\<lambda>k k'. k > k') (map snd us)"
      by simp
    from Cons.prems(3) have bound1: "\<forall>(a, k) \<in> set us. n \<le> k \<longrightarrow> k < length (stack ?vm1)"
      by auto
    from Cons.IH [OF rest1 sorted1 bound1]
    obtain vm' where r: "closeUpvalues n ?vm1 = Some vm'"
      and eq: "vm' = ?vm1\<lparr>heap := heap vm', openUpvalues := openUpvalues vm'\<rparr>"
      and len: "length (heap vm') = length (heap ?vm1)"
      and ol: "open_list vm' (openUpvalues vm') (dropWhile (\<lambda>(a, k). n \<le> k) us)"
      and cl: "\<forall>(b, j) \<in> set (takeWhile (\<lambda>(a, k). n \<le> k) us).
                 \<exists>w. upvalue_at ?vm1 b = Some w
                   \<and> upvalue_at vm' b = Some (w\<lparr>closed := stack ?vm1 ! j, location := ClosedPtr b\<rparr>)"
      and ot: "\<forall>b. b \<notin> fst ` set (takeWhile (\<lambda>(a, k). n \<le> k) us) \<longrightarrow> obj_at vm' b = obj_at ?vm1 b"
      by blast
    have tw: "takeWhile (\<lambda>(a, k). n \<le> k) (x # us) = (a, k) # takeWhile (\<lambda>(a, k). n \<le> k) us"
      and dw: "dropWhile (\<lambda>(a, k). n \<le> k) (x # us) = dropWhile (\<lambda>(a, k). n \<le> k) us"
      using True x by simp_all
    have ant: "a \<notin> fst ` set (takeWhile (\<lambda>(a, k). n \<le> k) us)"
    proof
      assume "a \<in> fst ` set (takeWhile (\<lambda>(a, k). n \<le> k) us)"
      then obtain j where "(a, j) \<in> set (takeWhile (\<lambda>(a, k). n \<le> k) us)" by auto
      then have "(a, j) \<in> set us" by (rule set_takeWhileD [THEN conjunct1])
      with an show False by force
    qed
    have c1: "vm' = vm\<lparr>heap := heap vm', openUpvalues := openUpvalues vm'\<rparr>"
      by (subst eq) simp
    have c2: "length (heap vm') = length (heap vm)"
      using len by simp
    have c4: "\<forall>(b, j) \<in> set (takeWhile (\<lambda>(a, k). n \<le> k) (x # us)).
                 \<exists>w. upvalue_at vm b = Some w
                   \<and> upvalue_at vm' b = Some (w\<lparr>closed := stack vm ! j, location := ClosedPtr b\<rparr>)"
    proof (clarify)
      fix b j
      assume bj: "(b, j) \<in> set (takeWhile (\<lambda>(a, k). n \<le> k) (x # us))"
      show "\<exists>w. upvalue_at vm b = Some w
              \<and> upvalue_at vm' b = Some (w\<lparr>closed := stack vm ! j, location := ClosedPtr b\<rparr>)"
      proof (cases "(b, j) = (a, k)")
        case True
        from ot ant have "obj_at vm' a = obj_at ?vm1 a" by blast
        then have "upvalue_at vm' a = Some ?c"
          using a1 by (simp add: upvalue_at_def)
        with True u show ?thesis by simp
      next
        case False
        with bj tw have in_t: "(b, j) \<in> set (takeWhile (\<lambda>(a, k). n \<le> k) us)"
          by auto
        with ant have "b \<noteq> a" by force
        with cl in_t show ?thesis
          by (auto simp: same_u)
      qed
    qed
    have c5: "\<forall>b. b \<notin> fst ` set (takeWhile (\<lambda>(a, k). n \<le> k) (x # us)) \<longrightarrow> obj_at vm' b = obj_at vm b"
    proof (intro allI impI)
      fix b
      assume "b \<notin> fst ` set (takeWhile (\<lambda>(a, k). n \<le> k) (x # us))"
      then have "b \<noteq> a" and "b \<notin> fst ` set (takeWhile (\<lambda>(a, k). n \<le> k) us)"
        unfolding tw by auto
      with ot same [of b] show "obj_at vm' b = obj_at vm b"
        by simp
    qed
    have ol': "open_list vm' (openUpvalues vm') (dropWhile (\<lambda>(a, k). n \<le> k) (x # us))"
      unfolding dw by (rule ol)
    have r': "closeUpvalues n vm = Some vm'"
      using step r by simp
    show ?thesis
      by (rule exI [of _ vm']) (intro conjI r' c1 c2 ol' c4 c5)
  qed
qed

lemma sorted_filter_slots:
  "sorted_wrt (\<lambda>k k'. k > k') (map snd (us :: (nat \<times> nat) list)) \<Longrightarrow>
   sorted_wrt (\<lambda>k k'. k > k') (map snd (filter P us))"
  by (simp add: sorted_wrt_map sorted_wrt_filter)

section \<open>Return\<close>










section \<open>Capturing upvalues\<close>

lemma sorted_takeWhile_above:
  "sorted_wrt (\<lambda>k k'. k > k') (map snd (us :: (nat \<times> nat) list)) \<Longrightarrow>
   takeWhile (\<lambda>(a, k). n < k) us = filter (\<lambda>(a, k). n < k) us"
proof (induction us)
  case Nil
  then show ?case by simp
next
  case (Cons x us)
  obtain a k where x: "x = (a, k)" by (cases x)
  show ?case
  proof (cases "n < k")
    case True
    with Cons x show ?thesis by auto
  next
    case False
    with Cons.prems x have "\<forall>(b, k') \<in> set us. \<not> n < k'" by force
    then have "filter (\<lambda>(a, k). n < k) us = []"
      by (auto simp: filter_empty_conv)
    with False x show ?thesis by simp
  qed
qed

lemma sorted_dropWhile_above:
  "sorted_wrt (\<lambda>k k'. k > k') (map snd (us :: (nat \<times> nat) list)) \<Longrightarrow>
   dropWhile (\<lambda>(a, k). n < k) us = filter (\<lambda>(a, k). k \<le> n) us"
proof (induction us)
  case Nil
  then show ?case by simp
next
  case (Cons x us)
  obtain a k where x: "x = (a, k)" by (cases x)
  show ?case
  proof (cases "n < k")
    case True
    with Cons x show ?thesis by auto
  next
    case False
    with Cons.prems x have "\<forall>(b, k') \<in> set us. k' \<le> n" by force
    then have "filter (\<lambda>(a, k). k \<le> n) us = us"
      by (intro filter_True) auto
    with False x show ?thesis by simp
  qed
qed

lemma captureUpvalue_loop_spec:
  "open_list vm p us \<Longrightarrow>
   captureUpvalue_loop vm local prev p =
     Some (if takeWhile (\<lambda>(a, k). local < k) us = [] then prev
           else Some (fst (last (takeWhile (\<lambda>(a, k). local < k) us))),
           first_node (dropWhile (\<lambda>(a, k). local < k) us))"
proof (induction us arbitrary: prev p)
  case Nil
  then show ?case
    by (subst captureUpvalue_loop.simps) simp
next
  case (Cons x us)
  obtain a k where x: "x = (a, k)" by (cases x)
  from Cons.prems x obtain u where p: "p = Some a"
    and u: "upvalue_at vm a = Some u" and loc: "location u = StackPtr k"
    and rest: "open_list vm (next_upvalue u) us"
    by (auto split: option.splits)
  show ?case
  proof (cases "local < k")
    case True
    have "captureUpvalue_loop vm local prev p
        = captureUpvalue_loop vm local (Some a) (next_upvalue u)"
      by (subst captureUpvalue_loop.simps) (simp add: p u loc True)
    also note Cons.IH [OF rest, of "Some a"]
    finally show ?thesis
      using True x by simp
  next
    case False
    have "captureUpvalue_loop vm local prev p = Some (prev, p)"
      by (subst captureUpvalue_loop.simps) (simp add: p u loc False)
    with False x p show ?thesis by simp
  qed
qed


lemma dropWhile_existing:
  assumes so: "sorted_wrt (\<lambda>k k'. k > k') (map snd (us :: (nat \<times> nat) list))"
    and mem: "(a, local) \<in> set us"
  shows "\<exists>rest. dropWhile (\<lambda>(a, k). local < k) us = (a, local) # rest"
  using assms
proof (induction us)
  case Nil
  then show ?case by simp
next
  case (Cons x us)
  obtain b j where x: "x = (b, j)" by (cases x)
  show ?case
  proof (cases "local < j")
    case True
    with Cons x show ?thesis by auto
  next
    case False
    have "(b, j) = (a, local)"
    proof (rule ccontr)
      assume "(b, j) \<noteq> (a, local)"
      with Cons.prems(2) x have "(a, local) \<in> set us" by auto
      with Cons.prems(1) x have "j > local" by force
      with False show False by simp
    qed
    with False x show ?thesis by simp
  qed
qed

lemma captureUpvalue_existing:
  assumes inv: "open_upvalues_sorted vm us" and mem: "(a, local) \<in> set us"
  shows "captureUpvalue local vm = Some (a, vm)"
proof -
  from inv have ol: "open_list vm (openUpvalues vm) us"
    and so: "sorted_wrt (\<lambda>k k'. k > k') (map snd us)"
    by (simp_all add: open_upvalues_sorted_def)
  from dropWhile_existing [OF so mem] obtain rest
    where dw: "dropWhile (\<lambda>(a, k). local < k) us = (a, local) # rest"
    by blast
  from open_list_node [OF ol mem] obtain u where u: "upvalue_at vm a = Some u"
    and loc: "location u = StackPtr local"
    by blast
  show ?thesis
    by (simp add: captureUpvalue_def captureUpvalue_loop_spec [OF ol] dw u loc)
qed

lemma open_list_splice:
  assumes "open_list vm p (hi @ lo)" and "hi \<noteq> []" and "distinct (map fst (hi @ lo))"
    and "a \<notin> fst ` set (hi @ lo)"
    and "upvalue_at vm' a
           = Some \<lparr>location = StackPtr local, closed = v, next_upvalue = first_node lo\<rparr>"
    and "upvalue_at vm (fst (last hi)) = Some uc"
    and "upvalue_at vm' (fst (last hi)) = Some (uc\<lparr>next_upvalue := Some a\<rparr>)"
    and "\<forall>b. b \<noteq> a \<and> b \<noteq> fst (last hi) \<longrightarrow> upvalue_at vm' b = upvalue_at vm b"
  shows "open_list vm' p (hi @ (a, local) # lo)"
  using assms
proof (induction hi arbitrary: p)
  case Nil
  then show ?case by simp
next
  case (Cons x hi)
  obtain c kc where x: "x = (c, kc)" by (cases x)
  show ?case
  proof (cases "hi = []")
    case True
    from Cons.prems(1,6) x True have p: "p = Some c" and loc: "location uc = StackPtr kc"
      and lo: "open_list vm (next_upvalue uc) lo"
      by (auto split: option.splits)
    have "\<forall>(b, j) \<in> set lo. upvalue_at vm' b = upvalue_at vm b"
    proof (clarify)
      fix b j
      assume bj: "(b, j) \<in> set lo"
      with Cons.prems(4) have "b \<noteq> a" by force
      moreover from bj Cons.prems(3) x True have "b \<noteq> c" by force
      ultimately show "upvalue_at vm' b = upvalue_at vm b"
        using Cons.prems(8) x True by simp
    qed
    from open_list_cong [OF lo this] open_list_first [OF lo]
    have "open_list vm' (first_node lo) lo" by simp
    with Cons.prems(5,7) p loc x True show ?thesis by simp
  next
    case False
    from Cons.prems(1) x obtain u where p: "p = Some c" and u: "upvalue_at vm c = Some u"
      and loc: "location u = StackPtr kc" and rest: "open_list vm (next_upvalue u) (hi @ lo)"
      by (auto split: option.splits)
    from False have lst: "last (x # hi) = last hi" by simp
    from False have "last hi \<in> set hi" by simp
    then have "fst (last hi) \<in> fst ` set hi" by simp
    with Cons.prems(3) x have "c \<noteq> fst (last hi)" by auto
    moreover from Cons.prems(4) x have "c \<noteq> a" by auto
    ultimately have u': "upvalue_at vm' c = Some u"
      using Cons.prems(8) u lst by simp
    have "open_list vm' (next_upvalue u) (hi @ (a, local) # lo)"
      using Cons.prems(3,4,5,6,7,8) lst
      by (intro Cons.IH [OF rest False]) auto
    with p u' loc x show ?thesis by simp
  qed
qed


lemma nodes_below_heap:
  "open_list vm p us \<Longrightarrow> (b, j) \<in> set us \<Longrightarrow> b < length (heap vm)"
  by (auto dest!: open_list_node simp: upvalue_at_def obj_at_def split: if_splits)

lemma sorted_insert_between:
  "sorted_wrt (\<lambda>k k'. k > k') (map snd (xs :: (nat \<times> nat) list)) \<Longrightarrow>
   sorted_wrt (\<lambda>k k'. k > k') (map snd ys) \<Longrightarrow>
   \<forall>(b, j) \<in> set xs. local < j \<Longrightarrow> \<forall>(b, j) \<in> set ys. j < local \<Longrightarrow>
   sorted_wrt (\<lambda>k k'. k > k') (map snd (xs @ (a, local) # ys))"
  by (fastforce simp: sorted_wrt_append)

lemma captureUpvalue_run:
  assumes loop: "captureUpvalue_loop vm local None (openUpvalues vm) = Some (prev, nxt)"
    and found: "(case nxt of
                  None \<Rightarrow> Some None
                | Some b \<Rightarrow> upvalue_at vm b \<bind>
                    (\<lambda>u. Some (if location u = StackPtr local then Some b else None))) = Some None"
    and vm2: "vm2 = vm\<lparr>heap := heap vm @ [UpvalueObj \<lparr>location = StackPtr local, closed = NIL_VAL,
                                                      next_upvalue = nxt\<rparr>]\<rparr>"
  shows "captureUpvalue local vm =
           (case prev of
              None \<Rightarrow> Some (length (heap vm), vm2\<lparr>openUpvalues := Some (length (heap vm))\<rparr>)
            | Some c \<Rightarrow>
                do {
                  pu \<leftarrow> upvalue_at vm2 c;
                  vm3 \<leftarrow> set_obj c (UpvalueObj (pu\<lparr>next_upvalue := Some (length (heap vm))\<rparr>)) vm2;
                  Some (length (heap vm), vm3)
                })"
proof -
  let ?n0 = "\<lparr>location = StackPtr local, closed = NIL_VAL, next_upvalue = None\<rparr>"
  let ?vm1 = "vm\<lparr>heap := heap vm @ [UpvalueObj ?n0]\<rparr>"
  have nu: "newUpvalue local vm = (length (heap vm), ?vm1)"
    by (simp add: newUpvalue_def allocateObject_def)
  have cu: "upvalue_at ?vm1 (length (heap vm)) = Some ?n0"
    by (simp add: upvalue_at_def obj_at_def)
  have so: "set_obj (length (heap vm))
      (UpvalueObj \<lparr>location = StackPtr local, closed = NIL_VAL, next_upvalue = nxt\<rparr>) ?vm1 = Some vm2"
    by (simp add: set_obj_def vm2)
  show ?thesis
    unfolding captureUpvalue_def loop
    by (simp add: found nu cu so del: bind_eq_Some_conv)
qed

lemma captureUpvalue_new:
  assumes inv: "open_upvalues_sorted vm us" and fresh: "local \<notin> snd ` set us"
  shows "\<exists>vm'. captureUpvalue local vm = Some (length (heap vm), vm')
           \<and> vm' = vm\<lparr>heap := heap vm', openUpvalues := openUpvalues vm'\<rparr>
           \<and> length (heap vm') = length (heap vm) + 1
           \<and> open_upvalues_sorted vm'
               (filter (\<lambda>(a, k). local < k) us @ (length (heap vm), local)
                  # filter (\<lambda>(a, k). k < local) us)
           \<and> (\<forall>b. b < length (heap vm) \<and> b \<notin> fst ` set (filter (\<lambda>(a, k). local < k) us) \<longrightarrow>
                 obj_at vm' b = obj_at vm b)"
proof -
  let ?Q = "\<lambda>(a, k). local < k"
  let ?hi = "takeWhile ?Q us" and ?lo = "dropWhile ?Q us"
  let ?a = "length (heap vm)"
  let ?n = "\<lparr>location = StackPtr local, closed = NIL_VAL, next_upvalue = first_node ?lo\<rparr>"
  let ?vm2 = "vm\<lparr>heap := heap vm @ [UpvalueObj ?n]\<rparr>"
  from inv have ol: "open_list vm (openUpvalues vm) us"
    and so: "sorted_wrt (\<lambda>k k'. k > k') (map snd us)"
    by (simp_all add: open_upvalues_sorted_def)
  have split: "us = ?hi @ ?lo" by simp
  have hi: "?hi = filter ?Q us" by (rule sorted_takeWhile_above [OF so])
  have "?lo = filter (\<lambda>(a, k). k \<le> local) us" by (rule sorted_dropWhile_above [OF so])
  also have "\<dots> = filter (\<lambda>(a, k). k < local) us"
    using fresh by (intro filter_cong) (force simp: order_le_less)+
  finally have lo: "?lo = filter (\<lambda>(a, k). k < local) us" .
  have dist: "distinct (map fst (?hi @ ?lo))"
    using sorted_slots_distinct [OF ol so] by simp
  have below: "\<forall>(b, j) \<in> set us. b < ?a"
    using nodes_below_heap [OF ol] by auto
  then have anew: "?a \<notin> fst ` set (?hi @ ?lo)"
    by force
  \<comment> \<open>the new list is sorted\<close>
  have sorted': "sorted_wrt (\<lambda>k k'. k > k') (map snd (?hi @ (?a, local) # ?lo))"
  proof -
    from so have "sorted_wrt (\<lambda>k k'. k > k') (map snd (?hi @ ?lo))" by simp
    then have "sorted_wrt (\<lambda>k k'. k > k') (map snd ?hi)"
      and "sorted_wrt (\<lambda>k k'. k > k') (map snd ?lo)"
      by (simp_all only: map_append sorted_wrt_append)
    moreover have "\<forall>(b, j) \<in> set ?hi. local < j" unfolding hi by auto
    moreover have "\<forall>(b, j) \<in> set ?lo. j < local" unfolding lo by auto
    ultimately show ?thesis
      by (rule sorted_insert_between)
  qed
  \<comment> \<open>no open upvalue for the slot is found\<close>
  have found: "(case first_node ?lo of
                  None \<Rightarrow> Some None
                | Some b \<Rightarrow> upvalue_at vm b \<bind>
                    (\<lambda>u. Some (if location u = StackPtr local then Some b else None))) = Some None"
  proof (cases ?lo)
    case Nil
    show ?thesis unfolding Nil by simp
  next
    case (Cons y ys)
    obtain b j where y: "y = (b, j)" by (cases y)
    have "(b, j) \<in> set ?lo" unfolding Cons y by simp
    then have mem: "(b, j) \<in> set us" by (rule set_dropWhileD)
    from open_list_node [OF ol mem] obtain u where "upvalue_at vm b = Some u" "location u = StackPtr j"
      by blast
    moreover from mem fresh have "j \<noteq> local" by force
    ultimately show ?thesis unfolding Cons y by simp
  qed
  have loop: "captureUpvalue_loop vm local None (openUpvalues vm)
      = Some (if ?hi = [] then None else Some (fst (last ?hi)), first_node ?lo)"
    by (rule captureUpvalue_loop_spec [OF ol])
  have same2: "\<And>b. b < ?a \<Longrightarrow> obj_at ?vm2 b = obj_at vm b"
    by (simp add: obj_at_def nth_append)
  have a2: "upvalue_at ?vm2 ?a = Some ?n"
    by (simp add: upvalue_at_def obj_at_def)
  show ?thesis
  proof (cases "?hi = []")
    case True
    let ?vm' = "?vm2\<lparr>openUpvalues := Some ?a\<rparr>"
    have run: "captureUpvalue local vm = Some (?a, ?vm')"
      using captureUpvalue_run [OF loop found refl] True by simp
    from True split have us: "us = ?lo" by simp
    have frame: "\<forall>(b, j) \<in> set ?lo. upvalue_at ?vm' b = upvalue_at vm b"
    proof (clarify)
      fix b j
      assume "(b, j) \<in> set ?lo"
      then have "(b, j) \<in> set us" by (rule set_dropWhileD)
      with below have "b < ?a" by auto
      then show "upvalue_at ?vm' b = upvalue_at vm b"
        by (simp add: upvalue_at_def obj_at_def nth_append)
    qed
    from ol us open_list_first [OF ol] have "open_list vm (first_node ?lo) ?lo"
      by simp
    from open_list_cong [OF this frame] have lo': "open_list ?vm' (first_node ?lo) ?lo" .
    have an: "upvalue_at ?vm' ?a = Some ?n"
      by (simp add: upvalue_at_def obj_at_def)
    have hd': "openUpvalues ?vm' = Some ?a"
      by simp
    have "open_list ?vm' (openUpvalues ?vm') ((?a, local) # ?lo)"
      unfolding hd' open_list.simps an using lo' by simp
    with sorted' True have inv': "open_upvalues_sorted ?vm' (?hi @ (?a, local) # ?lo)"
      by (simp add: open_upvalues_sorted_def)
    have oth: "\<forall>b. b < ?a \<and> b \<notin> fst ` set ?hi \<longrightarrow> obj_at ?vm' b = obj_at vm b"
      by (simp add: obj_at_def nth_append)
    have c2: "?vm' = vm\<lparr>heap := heap ?vm', openUpvalues := openUpvalues ?vm'\<rparr>"
      by simp
    have c3: "length (heap ?vm') = length (heap vm) + 1"
      by simp
    show ?thesis
      unfolding hi [symmetric] lo [symmetric]
      by (rule exI [of _ ?vm']) (intro conjI run c2 c3 inv' oth)
  next
    case False
    let ?c = "fst (last ?hi)"
    from False have "last ?hi \<in> set ?hi" by simp
    then have "last ?hi \<in> set us" by (rule set_takeWhileD [THEN conjunct1])
    then have cmem: "(?c, snd (last ?hi)) \<in> set us" by simp
    from open_list_node [OF ol cmem] obtain uc where uc: "upvalue_at vm ?c = Some uc"
      by blast
    from cmem below have cl: "?c < ?a" by auto
    let ?vm' = "?vm2\<lparr>heap := (heap ?vm2)[?c := UpvalueObj (uc\<lparr>next_upvalue := Some ?a\<rparr>)]\<rparr>"
    have uc2: "upvalue_at ?vm2 ?c = Some uc"
      using uc cl by (simp add: upvalue_at_def same2)
    have run: "captureUpvalue local vm = Some (?a, ?vm')"
      using captureUpvalue_run [OF loop found refl] False uc2 cl by (simp add: set_obj_def)
    have an: "upvalue_at ?vm' ?a = Some ?n"
      using cl by (simp add: upvalue_at_def obj_at_def)
    have cn: "upvalue_at ?vm' ?c = Some (uc\<lparr>next_upvalue := Some ?a\<rparr>)"
      using cl by (simp add: upvalue_at_def obj_at_def)
    have rest: "\<forall>b. b \<noteq> ?a \<and> b \<noteq> ?c \<longrightarrow> upvalue_at ?vm' b = upvalue_at vm b"
      by (auto simp: upvalue_at_def obj_at_def nth_append)
    from ol split have ol': "open_list vm (openUpvalues vm) (?hi @ ?lo)" by simp
    have "open_list ?vm' (openUpvalues vm) (?hi @ (?a, local) # ?lo)"
      by (rule open_list_splice [OF ol' False dist anew an uc cn rest])
    with sorted' have inv': "open_upvalues_sorted ?vm' (?hi @ (?a, local) # ?lo)"
      by (simp add: open_upvalues_sorted_def)
    have oth: "\<forall>b. b < ?a \<and> b \<notin> fst ` set ?hi \<longrightarrow> obj_at ?vm' b = obj_at vm b"
    proof (intro allI impI, elim conjE)
      fix b
      assume b: "b < ?a" "b \<notin> fst ` set ?hi"
      from \<open>last ?hi \<in> set ?hi\<close> have "?c \<in> fst ` set ?hi" by simp
      with b have "b \<noteq> ?c" by auto
      with b show "obj_at ?vm' b = obj_at vm b"
        by (simp add: obj_at_def nth_append)
    qed
    have c2: "?vm' = vm\<lparr>heap := heap ?vm', openUpvalues := openUpvalues ?vm'\<rparr>"
      by simp
    have c3: "length (heap ?vm') = length (heap vm) + 1"
      by simp
    show ?thesis
      unfolding hi [symmetric] lo [symmetric]
      by (rule exI [of _ ?vm']) (intro conjI run c2 c3 inv' oth)
  qed
qed


lemma strictly_decreasing_distinct:
  "sorted_wrt (\<lambda>k k'. k > k') (ks :: nat list) \<Longrightarrow> distinct ks"
  by (induction ks) auto

text \<open>
  C2. When the open-upvalue list \<open>us\<close> of \<open>vm\<close> is sorted by strictly decreasing stack slot,
  no two nodes refer to the same slot (nor are two nodes the same object), and
  \<open>captureUpvalue\<close> keeps it so: if an open upvalue for the slot \<open>local\<close> exists, it is
  returned and nothing changes; otherwise a new open upvalue is allocated and spliced in
  after the nodes with a greater slot and before those with a smaller one, the other
  objects stay as they were, and capturing the same slot again returns that same upvalue,
  so closures capturing one live slot share one upvalue object. The list is sorted
  initially (\<open>resetStack\<close> empties it) and \<open>closeUpvalues\<close> keeps it sorted.
\<close>

theorem C2_capture_upvalue:
  assumes inv: "open_upvalues_sorted vm us"
  shows "distinct (map snd us) \<and> distinct (map fst us)
       \<and> (\<forall>a. (a, local) \<in> set us \<longrightarrow> captureUpvalue local vm = Some (a, vm))
       \<and> (local \<notin> snd ` set us \<longrightarrow>
            (\<exists>vm'. captureUpvalue local vm = Some (length (heap vm), vm')
               \<and> obj_at vm (length (heap vm)) = None
               \<and> vm' = vm\<lparr>heap := heap vm', openUpvalues := openUpvalues vm'\<rparr>
               \<and> open_upvalues_sorted vm'
                   (filter (\<lambda>(a, k). local < k) us @ (length (heap vm), local)
                      # filter (\<lambda>(a, k). k < local) us)
               \<and> (\<forall>b. b < length (heap vm) \<and> b \<notin> fst ` set (filter (\<lambda>(a, k). local < k) us) \<longrightarrow>
                     obj_at vm' b = obj_at vm b)
               \<and> captureUpvalue local vm' = Some (length (heap vm), vm')))
       \<and> open_upvalues_sorted (resetStack vm) []
       \<and> (\<forall>n. (\<forall>(a, k) \<in> set us. n \<le> k \<longrightarrow> k < length (stack vm)) \<longrightarrow>
            (\<exists>vm'. closeUpvalues n vm = Some vm'
               \<and> open_upvalues_sorted vm' (filter (\<lambda>(a, k). k < n) us)))"
proof -
  from inv have ol: "open_list vm (openUpvalues vm) us"
    and so: "sorted_wrt (\<lambda>k k'. k > k') (map snd us)"
    by (simp_all add: open_upvalues_sorted_def)
  have c1: "distinct (map snd us)"
    by (rule strictly_decreasing_distinct [OF so])
  have c2: "distinct (map fst us)"
    by (rule sorted_slots_distinct [OF ol so])
  have c3: "\<forall>a. (a, local) \<in> set us \<longrightarrow> captureUpvalue local vm = Some (a, vm)"
    using captureUpvalue_existing [OF inv] by blast
  have c4: "local \<notin> snd ` set us \<longrightarrow>
            (\<exists>vm'. captureUpvalue local vm = Some (length (heap vm), vm')
               \<and> obj_at vm (length (heap vm)) = None
               \<and> vm' = vm\<lparr>heap := heap vm', openUpvalues := openUpvalues vm'\<rparr>
               \<and> open_upvalues_sorted vm'
                   (filter (\<lambda>(a, k). local < k) us @ (length (heap vm), local)
                      # filter (\<lambda>(a, k). k < local) us)
               \<and> (\<forall>b. b < length (heap vm) \<and> b \<notin> fst ` set (filter (\<lambda>(a, k). local < k) us) \<longrightarrow>
                     obj_at vm' b = obj_at vm b)
               \<and> captureUpvalue local vm' = Some (length (heap vm), vm'))"
  proof
    assume fresh: "local \<notin> snd ` set us"
    from captureUpvalue_new [OF inv fresh]
    obtain vm' where run: "captureUpvalue local vm = Some (length (heap vm), vm')"
      and eq: "vm' = vm\<lparr>heap := heap vm', openUpvalues := openUpvalues vm'\<rparr>"
      and inv': "open_upvalues_sorted vm'
                   (filter (\<lambda>(a, k). local < k) us @ (length (heap vm), local)
                      # filter (\<lambda>(a, k). k < local) us)"
      and oth: "\<forall>b. b < length (heap vm) \<and> b \<notin> fst ` set (filter (\<lambda>(a, k). local < k) us) \<longrightarrow>
                     obj_at vm' b = obj_at vm b"
      by blast
    have new: "obj_at vm (length (heap vm)) = None"
      by (simp add: obj_at_def)
    have again: "captureUpvalue local vm' = Some (length (heap vm), vm')"
      by (rule captureUpvalue_existing [OF inv']) simp
    show "\<exists>vm'. captureUpvalue local vm = Some (length (heap vm), vm')
               \<and> obj_at vm (length (heap vm)) = None
               \<and> vm' = vm\<lparr>heap := heap vm', openUpvalues := openUpvalues vm'\<rparr>
               \<and> open_upvalues_sorted vm'
                   (filter (\<lambda>(a, k). local < k) us @ (length (heap vm), local)
                      # filter (\<lambda>(a, k). k < local) us)
               \<and> (\<forall>b. b < length (heap vm) \<and> b \<notin> fst ` set (filter (\<lambda>(a, k). local < k) us) \<longrightarrow>
                     obj_at vm' b = obj_at vm b)
               \<and> captureUpvalue local vm' = Some (length (heap vm), vm')"
      by (rule exI [of _ vm']) (intro conjI run new eq inv' oth again)
  qed
  have c5: "open_upvalues_sorted (resetStack vm) []"
    by (simp add: open_upvalues_sorted_def resetStack_def)
  have c6: "\<forall>n. (\<forall>(a, k) \<in> set us. n \<le> k \<longrightarrow> k < length (stack vm)) \<longrightarrow>
            (\<exists>vm'. closeUpvalues n vm = Some vm'
               \<and> open_upvalues_sorted vm' (filter (\<lambda>(a, k). k < n) us))"
  proof (intro allI impI)
    fix n
    assume b: "\<forall>(a, k) \<in> set us. n \<le> k \<longrightarrow> k < length (stack vm)"
    from closeUpvalues_spec [OF ol so b]
    obtain vm' where r: "closeUpvalues n vm = Some vm'"
      and o: "open_list vm' (openUpvalues vm') (dropWhile (\<lambda>(a, k). n \<le> k) us)"
      by blast
    from o have "open_upvalues_sorted vm' (filter (\<lambda>(a, k). k < n) us)"
      unfolding sorted_dropWhile_filter [OF so] open_upvalues_sorted_def
      using sorted_filter_slots [OF so] by simp
    with r show "\<exists>vm'. closeUpvalues n vm = Some vm'
               \<and> open_upvalues_sorted vm' (filter (\<lambda>(a, k). k < n) us)"
      by blast
  qed
  from c1 c2 c3 c4 c5 c6 show ?thesis by blast
qed

lemma capture_vm_sorted: "open_upvalues_sorted capture_vm [(2, 4), (3, 2)]"
  by (simp add: capture_vm_def open_upvalues_sorted_def upvalue_at_def obj_at_def)

theorem C2_capture_upvalue_witness:
  "captureUpvalue 2 capture_vm = Some (3, capture_vm)
   \<and> (\<exists>vm'. captureUpvalue 3 capture_vm = Some (4, vm')
         \<and> open_upvalues_sorted vm' [(2, 4), (4, 3), (3, 2)]
         \<and> captureUpvalue 3 vm' = Some (4, vm'))"
proof -
  have len: "length (heap capture_vm) = 4"
    by (simp add: capture_vm_def)
  have a: "captureUpvalue 2 capture_vm = Some (3, capture_vm)"
    using C2_capture_upvalue [OF capture_vm_sorted, of 2] by simp
  have "(3 :: nat) \<notin> snd ` set [(2, 4), (3, 2)]"
    by simp
  with C2_capture_upvalue [OF capture_vm_sorted, of 3]
  obtain vm' where "captureUpvalue 3 capture_vm = Some (length (heap capture_vm), vm')"
    and "open_upvalues_sorted vm'
           (filter (\<lambda>(a, k). 3 < k) [(2, 4), (3, 2)] @ (length (heap capture_vm), 3)
              # filter (\<lambda>(a, k). k < 3) [(2, 4), (3, 2)])"
    and "captureUpvalue 3 vm' = Some (length (heap capture_vm), vm')"
    by blast
  then have "captureUpvalue 3 capture_vm = Some (4, vm')
         \<and> open_upvalues_sorted vm' [(2, 4), (4, 3), (3, 2)]
         \<and> captureUpvalue 3 vm' = Some (4, vm')"
    by (simp add: len)
  with a show ?thesis by blast
qed


end
